(* ===== verification/Prelude.thy ===== *)
theory Prelude
  imports Main "HOL-Library.Multiset"
begin

text \<open>
  The vocabulary every component shares.

  \<^item> Time and durations are \<open>int\<close> nanoseconds (Go's \<open>time.Duration\<close> is an int64 count of
    nanoseconds; the theories that depend on the 64-bit range say so and carry it as a hypothesis).
  \<^item> Go's \<open>error\<close> interface is the type \<open>gerror option\<close>, with \<open>None\<close> for nil; the constructors are
    the error values the repository produces or compares with.
  \<^item> A Go call either returns or panics: the type \<open>'a outcome\<close>.
  \<^item> A \<open>context.Context\<close> is the moment it is done and the error it then reports for ever.
  \<^item> Functional options (\<open>func(*Config)\<close>, nil allowed) are \<open>('c \<Rightarrow> 'c) option\<close>.
  \<^item> Reachability of a step relation, and the locale that turns an inductive invariant into a
    property of every reachable state.
\<close>

named_theorems go_defs \<open>definitions of the model's small operations\<close>
named_theorems go_step \<open>one-step facts of the step relations\<close>

section \<open>Errors\<close>

datatype pvalue = PUser nat | PNilDeref | PMsg string

datatype gerror =
    CtxCanceled                 \<comment> \<open>\<open>context.Canceled\<close>\<close>
  | CtxDeadlineExceeded         \<comment> \<open>\<open>context.DeadlineExceeded\<close>\<close>
  | Sentinel string             \<comment> \<open>a package-level \<open>errors.New\<close> value\<close>
  | Opaque nat                  \<comment> \<open>an error value of the caller\<close>
  | PanicError pvalue           \<comment> \<open>\<open>async.PanicError\<close>\<close>
  | StatusError nat string      \<comment> \<open>a gRPC status error: code and message\<close>
  | Wrapped string gerror       \<comment> \<open>\<open>fmt.Errorf\<close> with \<open>%w\<close>\<close>
  | Joined "gerror list"        \<comment> \<open>\<open>errors.Join\<close> of at least one non-nil error\<close>

text \<open>\<open>errors.Is\<close>: the error itself or anything in its tree of wrapped errors.\<close>

fun errors_is :: "gerror \<Rightarrow> gerror \<Rightarrow> bool" where
  "errors_is (Wrapped m e) t = (Wrapped m e = t \<or> errors_is e t)"
| "errors_is (Joined es) t = (Joined es = t \<or> list_ex (\<lambda>e. errors_is e t) es)"
| "errors_is e t = (e = t)"

lemma errors_is_refl [simp]: "errors_is e e"
  by (cases e) auto

text \<open>\<open>errors.Join\<close>: nil arguments are dropped; nil if nothing is left.\<close>

definition errors_join :: "gerror option list \<Rightarrow> gerror option" where
  "errors_join es =
     (case List.map_filter id es of [] \<Rightarrow> None | e # es' \<Rightarrow> Some (Joined (e # es')))"

lemma errors_join_pair [simp]:
  "errors_join [None, None] = None"
  "errors_join [Some a, None] = Some (Joined [a])"
  "errors_join [None, Some b] = Some (Joined [b])"
  "errors_join [Some a, Some b] = Some (Joined [a, b])"
  by (simp_all add: errors_join_def List.map_filter_def)

text \<open>\<open>errors.Is(err, target)\<close> on an \<open>error\<close> that may be nil.\<close>

definition err_is :: "gerror option \<Rightarrow> gerror \<Rightarrow> bool" where
  "err_is err t = (case err of None \<Rightarrow> False | Some e \<Rightarrow> errors_is e t)"

lemma err_is_simps [simp]: "\<not> err_is None t" "err_is (Some e) t = errors_is e t"
  by (simp_all add: err_is_def)

text \<open>The loop that returns the first non-nil error.\<close>

fun first_error :: "gerror option list \<Rightarrow> gerror option" where
  "first_error [] = None"
| "first_error (None # es) = first_error es"
| "first_error (Some err # es) = Some err"

text \<open>\<open>strings.Join\<close>.\<close>

fun Join :: "string list \<Rightarrow> string \<Rightarrow> string" where
  "Join [] sep = []"
| "Join [s] sep = s"
| "Join (s # t # ss) sep = s @ sep @ Join (t # ss) sep"

section \<open>Calls that return or panic\<close>

datatype 'a outcome = Returns 'a | Panics pvalue

fun bind_outcome :: "'a outcome \<Rightarrow> ('a \<Rightarrow> 'b outcome) \<Rightarrow> 'b outcome" where
  "bind_outcome (Returns a) f = f a"
| "bind_outcome (Panics v) f = Panics v"

section \<open>Contexts\<close>

text \<open>
  The documented behaviour of \<open>context.Context\<close>: \<open>Err\<close> is nil until the context is done and the
  same non-nil error from then on. \<open>done_at = None\<close> is \<open>context.Background()\<close>.
\<close>

record context_t =
  done_at :: "int option"
  cause :: gerror

definition background :: context_t where
  "background = \<lparr>done_at = None, cause = CtxCanceled\<rparr>"

definition ctx_err :: "context_t \<Rightarrow> int \<Rightarrow> gerror option" where
  "ctx_err c t = (case done_at c of None \<Rightarrow> None | Some d \<Rightarrow> if d \<le> t then Some (cause c) else None)"

lemma ctx_err_background [simp]: "ctx_err background t = None"
  by (simp add: ctx_err_def background_def)

lemma ctx_err_None_earlier: "ctx_err c t = None \<Longrightarrow> s \<le> t \<Longrightarrow> ctx_err c s = None"
  by (auto simp: ctx_err_def split: option.splits if_splits)

lemma ctx_err_Some_later: "ctx_err c t = Some e \<Longrightarrow> t \<le> u \<Longrightarrow> ctx_err c u = Some e"
  by (auto simp: ctx_err_def split: option.splits if_splits)

section \<open>Functional options\<close>

text \<open>
  \<open>for _, opt := range opts { if opt != nil { opt(&cfg) } }\<close>, the loop every constructor of the
  repository runs over its options.
\<close>

fun apply_options :: "('c \<Rightarrow> 'c) option list \<Rightarrow> 'c \<Rightarrow> 'c" where
  "apply_options [] c = c"
| "apply_options (None # os) c = apply_options os c"
| "apply_options (Some f # os) c = apply_options os (f c)"

lemma apply_options_append [simp]:
  "apply_options (xs @ ys) c = apply_options ys (apply_options xs c)"
  by (induction xs c rule: apply_options.induct) auto

lemma apply_options_drop_nil:
  "apply_options (filter (\<lambda>x. x \<noteq> None) os) c = apply_options os c"
  by (induction os c rule: apply_options.induct) auto

text \<open>
  The contract of an option API: the defaults satisfy the configuration's invariant and no option
  the package hands out breaks it. Every configuration the constructor can build is then valid.
\<close>

locale option_api =
  fixes defaults :: 'c
    and valid :: "'c \<Rightarrow> bool"
    and offered :: "('c \<Rightarrow> 'c) \<Rightarrow> bool"
  assumes defaults_valid: "valid defaults"
    and option_valid: "offered f \<Longrightarrow> valid c \<Longrightarrow> valid (f c)"
begin

lemma apply_options_valid:
  "valid c \<Longrightarrow> (\<And>f. Some f \<in> set os \<Longrightarrow> offered f) \<Longrightarrow> valid (apply_options os c)"
  by (induction os c rule: apply_options.induct) (auto intro: option_valid)

lemma parsed_valid:
  "(\<And>f. Some f \<in> set os \<Longrightarrow> offered f) \<Longrightarrow> valid (apply_options os defaults)"
  by (rule apply_options_valid [OF defaults_valid])

end

section \<open>Reachable states\<close>

inductive reachable :: "('s \<Rightarrow> bool) \<Rightarrow> ('s \<Rightarrow> 's \<Rightarrow> bool) \<Rightarrow> 's \<Rightarrow> bool"
  for I :: "'s \<Rightarrow> bool" and R :: "'s \<Rightarrow> 's \<Rightarrow> bool" where
  reachable_init: "I s \<Longrightarrow> reachable I R s"
| reachable_step: "reachable I R s \<Longrightarrow> R s t \<Longrightarrow> reachable I R t"

text \<open>A step system with an inductive invariant: the invariant holds in every reachable state.\<close>

locale inductive_invariant =
  fixes I :: "'s \<Rightarrow> bool" and R :: "'s \<Rightarrow> 's \<Rightarrow> bool" and inv :: "'s \<Rightarrow> bool"
  assumes init_inv: "I s \<Longrightarrow> inv s"
    and step_inv: "R s t \<Longrightarrow> inv s \<Longrightarrow> inv t"
begin

lemma reachable_inv: "reachable I R s \<Longrightarrow> inv s"
  by (induction rule: reachable.induct) (auto intro: init_inv step_inv)

lemma reachable_step_inv: "reachable I R s \<Longrightarrow> R s t \<Longrightarrow> inv s \<and> inv t"
  by (blast intro: reachable_inv reachable_step)

end

text \<open>A step system with a measure that every step decreases has no infinite run.\<close>

locale terminating_system =
  fixes I :: "'s \<Rightarrow> bool" and R :: "'s \<Rightarrow> 's \<Rightarrow> bool" and m :: "'s \<Rightarrow> nat"
  assumes measure_decreases: "reachable I R s \<Longrightarrow> R s t \<Longrightarrow> m t < m s"
begin

lemma no_infinite_run:
  assumes "I (run 0)"
  shows "\<exists>k. \<not> R (run k) (run (Suc k))"
proof (rule ccontr)
  assume "\<not> (\<exists>k. \<not> R (run k) (run (Suc k)))"
  then have step: "R (run k) (run (Suc k))" for k by blast
  have reach: "reachable I R (run k)" for k
    by (induction k) (auto intro: reachable.intros assms step)
  have "m (run k) + k \<le> m (run 0)" for k
  proof (induction k)
    case (Suc k)
    with measure_decreases [OF reach step, of k] show ?case by simp
  qed simp
  from this [of "Suc (m (run 0))"] show False by simp
qed

end

text \<open>
  Functional refinement of an event-driven component: every event's concrete step is its abstract
  step under the abstraction, on states that satisfy the invariant. Runs then refine runs.
\<close>

locale simulation =
  fixes inv :: "'s \<Rightarrow> bool" and abs_of :: "'s \<Rightarrow> 'a"
    and cstep :: "'e \<Rightarrow> 's \<Rightarrow> 's" and astep :: "'e \<Rightarrow> 'a \<Rightarrow> 'a"
  assumes inv_kept: "inv s \<Longrightarrow> inv (cstep e s)"
    and abs_step: "inv s \<Longrightarrow> abs_of (cstep e s) = astep e (abs_of s)"
begin

lemma run_inv: "inv s \<Longrightarrow> inv (fold cstep es s)"
  by (induction es arbitrary: s) (auto intro: inv_kept)

lemma run_abs: "inv s \<Longrightarrow> abs_of (fold cstep es s) = fold astep es (abs_of s)"
  by (induction es arbitrary: s) (auto simp: abs_step inv_kept)

end

section \<open>Lists indexed by workers\<close>

text \<open>The number of indices below \<open>n\<close> that satisfy \<open>P\<close>, with its behaviour under a point update.\<close>

definition count_below :: "nat \<Rightarrow> (nat \<Rightarrow> bool) \<Rightarrow> nat" where
  "count_below n P = length (filter P [0..<n])"

lemma count_below_0 [simp]: "count_below 0 P = 0"
  by (simp add: count_below_def)

lemma count_below_Suc [simp]:
  "count_below (Suc n) P = count_below n P + (if P n then 1 else 0)"
  by (simp add: count_below_def)

lemma count_below_cong:
  "(\<And>i. i < n \<Longrightarrow> P i = Q i) \<Longrightarrow> count_below n P = count_below n Q"
  by (induction n) auto

lemma count_below_le: "count_below n P \<le> n"
  by (induction n) auto

lemma count_below_eq_0: "count_below n P = 0 \<longleftrightarrow> (\<forall>i<n. \<not> P i)"
  by (induction n) (auto simp: less_Suc_eq)

lemma count_below_card: "count_below n P = card {i. i < n \<and> P i}"
proof (induction n)
  case (Suc n)
  have "{i. i < Suc n \<and> P i} = (if P n then insert n {i. i < n \<and> P i} else {i. i < n \<and> P i})"
    by (auto simp: less_Suc_eq)
  with Suc show ?case by simp
qed simp

lemma count_below_gain:
  assumes "k < n" "\<not> P k" "Q k" "\<And>i. i \<noteq> k \<Longrightarrow> Q i = P i"
  shows "count_below n Q = Suc (count_below n P)"
  using assms
proof (induction n)
  case (Suc n)
  show ?case
  proof (cases "k = n")
    case True
    with Suc.prems have "count_below n Q = count_below n P" by (intro count_below_cong) auto
    with True Suc.prems show ?thesis by simp
  qed (use Suc in auto)
qed simp

lemma count_below_loss:
  assumes "k < n" "P k" "\<not> Q k" "\<And>i. i \<noteq> k \<Longrightarrow> Q i = P i"
  shows "count_below n P = Suc (count_below n Q)"
  by (rule count_below_gain [of k]) (use assms in auto)

lemma count_below_same:
  "Q k = P k \<Longrightarrow> (\<And>i. i \<noteq> k \<Longrightarrow> Q i = P i) \<Longrightarrow> count_below n Q = count_below n P"
  by (rule count_below_cong) metis

end
