(* ===== verification/Result.thy ===== *)
theory Result
  imports Prelude
begin

text \<open>
  \<open>result/result.go\<close>: the generic \<open>Result[T]\<close> container. Go's zero value of \<open>T\<close>, which a failed
  result carries in its \<open>value\<close> field, is the argument \<open>zero\<close> of the constructors that leave the
  field unset. \<open>fmt\<close>'s rendering of a value or an error is an argument of \<open>Result_String\<close>.
\<close>

record 't Result =
  r_value :: 't
  r_err :: "gerror option"
  r_ok :: bool

definition Ok :: "'t \<Rightarrow> 't Result" where
  "Ok v = \<lparr>r_value = v, r_err = None, r_ok = True\<rparr>"

definition Err :: "'t \<Rightarrow> gerror option \<Rightarrow> 't Result" where
  "Err zero e = \<lparr>r_value = zero, r_err = e, r_ok = False\<rparr>"

text \<open>\<open>fmt.Errorf\<close> always yields a non-nil error; the argument is that error.\<close>

definition Errf :: "'t \<Rightarrow> gerror \<Rightarrow> 't Result" where
  "Errf zero formatted = \<lparr>r_value = zero, r_err = Some formatted, r_ok = False\<rparr>"

definition Of :: "'t \<Rightarrow> 't \<Rightarrow> gerror option \<Rightarrow> 't Result" where
  "Of zero v e = (if e \<noteq> None then Err zero e else Ok v)"

definition IsOk :: "'t Result \<Rightarrow> bool" where
  "IsOk r = r_ok r"

definition IsErr :: "'t Result \<Rightarrow> bool" where
  "IsErr r = (\<not> r_ok r)"

definition Unwrap :: "'t Result \<Rightarrow> 't \<times> gerror option" where
  "Unwrap r = (r_value r, r_err r)"

definition UnwrapOr :: "'t Result \<Rightarrow> 't \<Rightarrow> 't" where
  "UnwrapOr r fallback = (if r_ok r then r_value r else fallback)"

definition UnwrapOrElse :: "'t Result \<Rightarrow> (gerror option \<Rightarrow> 't) \<Rightarrow> 't" where
  "UnwrapOrElse r fn = (if r_ok r then r_value r else fn (r_err r))"

definition Result_Error :: "'t Result \<Rightarrow> gerror option" where
  "Result_Error r = r_err r"

definition Result_Map :: "'u \<Rightarrow> 't Result \<Rightarrow> ('t \<Rightarrow> 'u) \<Rightarrow> 'u Result" where
  "Result_Map zero r fn = (if r_ok r then Ok (fn (r_value r)) else Err zero (r_err r))"

definition FlatMap :: "'u \<Rightarrow> 't Result \<Rightarrow> ('t \<Rightarrow> 'u Result) \<Rightarrow> 'u Result" where
  "FlatMap zero r fn = (if r_ok r then fn (r_value r) else Err zero (r_err r))"

definition Result_String ::
    "('t \<Rightarrow> string) \<Rightarrow> (gerror option \<Rightarrow> string) \<Rightarrow> 't Result \<Rightarrow> string" where
  "Result_String show_v show_e r =
     (if r_ok r then ''Ok('' @ show_v (r_value r) @ '')'' else ''Err('' @ show_e (r_err r) @ '')'')"

lemmas result_defs [go_defs] =
  Ok_def Err_def Errf_def Of_def IsOk_def IsErr_def Unwrap_def UnwrapOr_def UnwrapOrElse_def
  Result_Error_def Result_Map_def FlatMap_def Result_String_def

section \<open>Well-formed results\<close>

text \<open>
  The fields are unexported, so every result a client holds comes from the constructors or the
  zero value: a success carries no error and a failure carries the zero value.
\<close>

definition result_wf :: "'t \<Rightarrow> 't Result \<Rightarrow> bool" where
  "result_wf zero r \<longleftrightarrow> (if r_ok r then r_err r = None else r_value r = zero)"

lemma result_wf_intros [intro, simp]:
  "result_wf zero (Ok v)" "result_wf zero (Err zero e)" "result_wf zero (Errf zero d)"
  "result_wf zero (Of zero v e)" "result_wf zero (Result_Map zero q f)"
  by (simp_all add: result_wf_def go_defs)

lemma result_wf_FlatMap [intro, simp]:
  "(\<And>x. result_wf zero (f x)) \<Longrightarrow> result_wf zero (FlatMap zero r f)"
  by (simp add: result_wf_def go_defs)

lemma result_cases:
  assumes "result_wf zero r"
  obtains (ok) v where "r = Ok v" | (err) e where "r = Err zero e"
proof (cases "r_ok r")
  case True
  with assms have "r = Ok (r_value r)" by (simp add: result_wf_def Ok_def)
  then show ?thesis by (rule ok)
next
  case False
  with assms have "r = Err zero (r_err r)" by (simp add: result_wf_def Err_def)
  then show ?thesis by (rule err)
qed

section \<open>The abstract specification: a sum\<close>

text \<open>A result is a sum of an error and a value; \<open>Map\<close> and \<open>FlatMap\<close> are the sum's own.\<close>

definition result_abs :: "'t Result \<Rightarrow> gerror option + 't" where
  "result_abs r = (if r_ok r then Inr (r_value r) else Inl (r_err r))"

fun sum_bind :: "'e + 'a \<Rightarrow> ('a \<Rightarrow> 'e + 'b) \<Rightarrow> 'e + 'b" where
  "sum_bind (Inl e) f = Inl e"
| "sum_bind (Inr a) f = f a"

lemma result_abs_Ok [simp]: "result_abs (Ok v) = Inr v"
  by (simp add: result_abs_def go_defs)

lemma result_abs_Err [simp]: "result_abs (Err zero e) = Inl e"
  by (simp add: result_abs_def go_defs)

lemma result_abs_FlatMap:
  "result_abs (FlatMap zero r f) = sum_bind (result_abs r) (\<lambda>x. result_abs (f x))"
  by (simp add: result_abs_def go_defs)

lemma result_abs_inject:
  "result_wf zero r \<Longrightarrow> result_wf zero s \<Longrightarrow> result_abs r = result_abs s \<longleftrightarrow> r = s"
  by (auto simp: result_abs_def result_wf_def split: if_splits)

section \<open>Properties\<close>

text \<open>
  The abstraction to a sum is a homomorphism: \<open>Map\<close> applies its function to the success side
  only, \<open>FlatMap\<close> is the bind of the sum (so an error short-circuits the chain and is propagated
  unchanged), and \<open>UnwrapOrElse\<close> is its case analysis.
\<close>

theorem result_refines_sum:
  "result_abs (Result_Map zero r g) = map_sum id g (result_abs r)
   \<and> result_abs (FlatMap zero r f) = sum_bind (result_abs r) (\<lambda>x. result_abs (f x))
   \<and> UnwrapOrElse s h = (case result_abs s of Inl e \<Rightarrow> h e | Inr v \<Rightarrow> v)
   \<and> UnwrapOr s v = UnwrapOrElse s (\<lambda>_. v)"
  by (simp add: result_abs_FlatMap) (simp add: result_abs_def go_defs)

text \<open>
  \<open>FlatMap\<close> and \<open>Ok\<close> form a monad on the results a client can hold: left identity, right
  identity and associativity.
\<close>

theorem flatmap_monad_laws:
  assumes "result_wf zero r"
  shows "FlatMap zero' (Ok a) f = f a
    \<and> FlatMap zero r Ok = r
    \<and> FlatMap zero'' (FlatMap zero' r f) g = FlatMap zero'' r (\<lambda>x. FlatMap zero'' (f x) g)"
  using assms by (cases rule: result_cases) (simp_all add: go_defs)

theorem flatmap_monad_laws_witness:
  "FlatMap 0 (Errf (0::nat) (Opaque 7)) Ok = Errf 0 (Opaque 7)
   \<and> FlatMap (0::nat) (FlatMap (0::nat) (Errf (0::nat) (Opaque 7)) Ok) Ok =
     FlatMap 0 (Errf (0::nat) (Opaque 7)) (\<lambda>x. FlatMap 0 (Ok x) Ok)"
proof -
  have "result_wf 0 (Errf (0::nat) (Opaque 7))" by simp
  from flatmap_monad_laws [OF this, of "0::nat" "0::nat" Ok "0::nat" Ok] show ?thesis by blast
qed

text \<open>
  \<open>Of\<close> and \<open>Unwrap\<close> bridge to Go's \<open>(value, err)\<close> idiom and back without loss, for every
  result but one: \<open>Err(nil)\<close>, whose failure \<open>Unwrap\<close> does not show, so that the round trip turns it
  into a success. \<open>IsOk\<close> and \<open>IsErr\<close> tell the two apart.
\<close>

theorem unwrap_of_roundtrip:
  assumes "result_wf zero r"
  shows "(Of zero (fst (Unwrap r)) (snd (Unwrap r)) = r \<longleftrightarrow> r \<noteq> Err zero None)
    \<and> Unwrap (Of zero v e) = (if e = None then v else zero, e)
    \<and> IsErr r = (\<not> IsOk r)"
  using assms by (cases rule: result_cases) (simp_all add: go_defs)

theorem unwrap_of_roundtrip_witness:
  "Of 0 (fst (Unwrap (Ok (5::nat)))) (snd (Unwrap (Ok (5::nat)))) = Ok 5
   \<and> Of 0 (fst (Unwrap (Err (0::nat) None))) (snd (Unwrap (Err (0::nat) None))) \<noteq> Err 0 None"
proof -
  have ok: "result_wf (0::nat) (Ok 5)" and er: "result_wf (0::nat) (Err 0 None)" by simp_all
  have "Ok (5::nat) \<noteq> Err 0 None" by (simp add: go_defs)
  with unwrap_of_roundtrip [OF ok] unwrap_of_roundtrip [OF er] show ?thesis by blast
qed

end
