(* ===== verification/Breaker.thy ===== *)
theory Breaker
  imports Prelude "HOL-Library.Monad_Syntax"
begin

text \<open>
  \<open>circuitbreaker/circuitbreaker.go\<close>, one critical section at a time. Every operation of
  \<open>Breaker\<close> is a function of the breaker it locks and of the clock reading it takes; the part of
  \<open>ExecuteContext\<close> before \<open>fn()\<close> is \<open>begin_execute\<close>, its deferred function is \<open>end_execute\<close> and
  \<open>ExecuteContext\<close> composes them around the call. A callback \<open>OnStateChange\<close> may panic, so the
  operations return an outcome; the calls made to it are kept in the field \<open>notified\<close>, which is
  the only field that is not the code's. \<open>BreakerConc\<close> interleaves the critical sections.
\<close>

section \<open>Data\<close>

datatype cb_state = StateClosed | StateOpen | StateHalfOpen

fun iota :: "cb_state \<Rightarrow> int" where
  "iota StateClosed = 0"
| "iota StateOpen = 1"
| "iota StateHalfOpen = 2"

text \<open>\<open>State\<close> is an \<open>int\<close> type, so \<open>String\<close> is a function of any integer.\<close>

definition State_String :: "int \<Rightarrow> string" where
  "State_String s =
     (if s = iota StateClosed then ''closed''
      else if s = iota StateOpen then ''open''
      else if s = iota StateHalfOpen then ''half-open''
      else ''unknown'')"

instantiation cb_state :: linorder
begin

definition less_eq_cb_state :: "cb_state \<Rightarrow> cb_state \<Rightarrow> bool" where
  "less_eq_cb_state a b \<longleftrightarrow> iota a \<le> iota b"

definition less_cb_state :: "cb_state \<Rightarrow> cb_state \<Rightarrow> bool" where
  "less_cb_state a b \<longleftrightarrow> iota a < iota b"

instance
proof
  fix a b :: cb_state
  show "a \<le> b \<Longrightarrow> b \<le> a \<Longrightarrow> a = b"
    by (cases a; cases b) (simp_all add: less_eq_cb_state_def)
qed (auto simp: less_eq_cb_state_def less_cb_state_def)

end

record cb_config =
  FailureThreshold :: int
  SuccessThreshold :: int
  Timeout :: int
  MaxHalfOpenRequests :: int
  OnStateChange :: "(cb_state \<Rightarrow> cb_state \<Rightarrow> unit outcome) option"

definition second :: int where "second = 1000000000"

definition DefaultConfig :: cb_config where
  "DefaultConfig = \<lparr>FailureThreshold = 5, SuccessThreshold = 2, Timeout = 30 * second,
     MaxHalfOpenRequests = 1, OnStateChange = None\<rparr>"

record breaker =
  config :: cb_config
  state :: cb_state
  failureCount :: int
  successCount :: int
  halfOpenRequests :: int
  lastFailureTime :: int
  notified :: "(cb_state \<times> cb_state) list"

definition ErrCircuitOpen :: gerror where
  "ErrCircuitOpen = Sentinel ''circuitbreaker: circuit is open''"

definition ErrTooManyRequests :: gerror where
  "ErrTooManyRequests = Sentinel ''circuitbreaker: too many requests in half-open state''"

section \<open>Operations\<close>

definition sanitize :: "cb_config \<Rightarrow> cb_config" where
  "sanitize cfg =
     (let c1 = (if FailureThreshold cfg \<le> 0 then cfg\<lparr>FailureThreshold := 5\<rparr> else cfg);
          c2 = (if SuccessThreshold c1 \<le> 0 then c1\<lparr>SuccessThreshold := 2\<rparr> else c1);
          c3 = (if Timeout c2 \<le> 0 then c2\<lparr>Timeout := 30 * second\<rparr> else c2)
      in (if MaxHalfOpenRequests c3 \<le> 0 then c3\<lparr>MaxHalfOpenRequests := 1\<rparr> else c3))"

definition New_Breaker :: "cb_config \<Rightarrow> breaker" where
  "New_Breaker cfg = \<lparr>config = sanitize cfg, state = StateClosed, failureCount = 0,
     successCount = 0, halfOpenRequests = 0, lastFailureTime = 0, notified = []\<rparr>"

definition to :: "cb_state \<Rightarrow> cb_state" where
  "to s = s"

definition transitionTo :: "cb_state \<Rightarrow> breaker \<Rightarrow> unit outcome \<times> breaker" where
  "transitionTo newState b =
     (if state b = newState then (Returns (), b)
      else
        let from = state b;
            b' = b\<lparr>state := newState, failureCount := 0, successCount := 0,
                   halfOpenRequests := 0\<rparr>
        in case OnStateChange (config b) of
             None \<Rightarrow> (Returns (), b')
           | Some cb \<Rightarrow>
               (cb from (to newState), b'\<lparr>notified := notified b @ [(from, to newState)]\<rparr>))"

definition currentState :: "int \<Rightarrow> breaker \<Rightarrow> cb_state outcome \<times> breaker" where
  "currentState now b =
     (if state b = StateOpen \<and> now - lastFailureTime b \<ge> Timeout (config b)
      then (case transitionTo StateHalfOpen b of
              (Returns _, b') \<Rightarrow> (Returns (state b'), b')
            | (Panics v, b') \<Rightarrow> (Panics v, b'))
      else (Returns (state b), b))"

definition recordSuccess :: "breaker \<Rightarrow> unit outcome \<times> breaker" where
  "recordSuccess b =
     (case state b of
        StateClosed \<Rightarrow> (Returns (), b\<lparr>failureCount := 0\<rparr>)
      | StateHalfOpen \<Rightarrow>
          let b' = b\<lparr>successCount := successCount b + 1\<rparr>
          in (if successCount b' \<ge> SuccessThreshold (config b') then transitionTo StateClosed b'
              else (Returns (), b'))
      | StateOpen \<Rightarrow> (Returns (), b))"

definition recordFailure :: "int \<Rightarrow> breaker \<Rightarrow> unit outcome \<times> breaker" where
  "recordFailure now b =
     (let b0 = b\<lparr>lastFailureTime := now\<rparr>
      in case state b0 of
           StateClosed \<Rightarrow>
             let b' = b0\<lparr>failureCount := failureCount b0 + 1\<rparr>
             in (if failureCount b' \<ge> FailureThreshold (config b') then transitionTo StateOpen b'
                 else (Returns (), b'))
         | StateHalfOpen \<Rightarrow> transitionTo StateOpen b0
         | StateOpen \<Rightarrow> (Returns (), b0))"

definition Reset :: "breaker \<Rightarrow> unit outcome \<times> breaker" where
  "Reset b = transitionTo StateClosed b"

definition Breaker_State :: "int \<Rightarrow> breaker \<Rightarrow> cb_state outcome \<times> breaker" where
  "Breaker_State now b = currentState now b"

text \<open>
  \<open>ExecuteContext\<close> up to the call of \<open>fn\<close>: the request is rejected with an error, or admitted,
  with a flag that says whether it is a half-open probe.
\<close>

datatype admission = Rejected gerror | Admitted bool

definition begin_execute ::
    "int \<Rightarrow> gerror option \<Rightarrow> breaker \<Rightarrow> admission outcome \<times> breaker" where
  "begin_execute now cerr b =
     (case cerr of
        Some e \<Rightarrow> (Returns (Rejected e), b)
      | None \<Rightarrow>
          (case currentState now b of
             (Panics v, b') \<Rightarrow> (Panics v, b')
           | (Returns st, b') \<Rightarrow>
               (case st of
                  StateOpen \<Rightarrow> (Returns (Rejected ErrCircuitOpen), b')
                | StateHalfOpen \<Rightarrow>
                    (if halfOpenRequests b' \<ge> MaxHalfOpenRequests (config b')
                     then (Returns (Rejected ErrTooManyRequests), b')
                     else (Returns (Admitted True),
                           b'\<lparr>halfOpenRequests := halfOpenRequests b' + 1\<rparr>))
                | StateClosed \<Rightarrow> (Returns (Admitted False), b'))))"

text \<open>
  The deferred function: \<open>out\<close> is what \<open>fn\<close> did (returned an error or nil, or panicked) and
  \<open>cerr\<close> is \<open>ctx.Err()\<close> when it runs.
\<close>

definition end_execute ::
    "int \<Rightarrow> gerror option \<Rightarrow> bool \<Rightarrow> gerror option outcome \<Rightarrow> breaker \<Rightarrow> unit outcome \<times> breaker"
where
  "end_execute now cerr isHalfOpenProbe out b =
     (let b' = (if isHalfOpenProbe then b\<lparr>halfOpenRequests := halfOpenRequests b - 1\<rparr> else b)
      in case out of
           Panics _ \<Rightarrow> recordFailure now b'
         | Returns (Some e) \<Rightarrow>
             (if \<not> errors_is e CtxCanceled \<and> \<not> err_is cerr CtxCanceled
              then recordFailure now b' else (Returns (), b'))
         | Returns None \<Rightarrow> recordSuccess b')"

text \<open>
  The whole call, with nothing interleaved: \<open>fn\<close> is started at \<open>now\<close> and yields its outcome and
  the time it finishes. A nil context is the background context.
\<close>

definition ExecuteContext ::
    "context_t option \<Rightarrow> int \<Rightarrow> (int \<Rightarrow> gerror option outcome \<times> int) \<Rightarrow> breaker
     \<Rightarrow> gerror option outcome \<times> breaker" where
  "ExecuteContext c now fn b =
     (let ctx = (case c of None \<Rightarrow> background | Some c' \<Rightarrow> c')
      in case begin_execute now (ctx_err ctx now) b of
           (Panics v, b') \<Rightarrow> (Panics v, b')
         | (Returns (Rejected e), b') \<Rightarrow> (Returns (Some e), b')
         | (Returns (Admitted probe), b') \<Rightarrow>
             (case fn now of
                (out, later) \<Rightarrow>
                  (case end_execute later (ctx_err ctx later) probe out b' of
                     (Panics v, b'') \<Rightarrow> (Panics v, b'')
                   | (Returns _, b'') \<Rightarrow> (out, b''))))"

definition Execute ::
    "int \<Rightarrow> (int \<Rightarrow> gerror option outcome \<times> int) \<Rightarrow> breaker \<Rightarrow> gerror option outcome \<times> breaker" where
  "Execute now fn b = ExecuteContext (Some background) now fn b"

section \<open>The mutex\<close>

text \<open>
  The same critical sections with \<open>Breaker.mu\<close>: the state is a pair of the mutex (is it held?) and the
  breaker, and \<open>None\<close> is a call that does not get past its \<open>Lock\<close> (or the fatal error of unlocking a
  free mutex). \<open>ExecuteContext\<close> looks at the context before it locks and unlocks by hand on every
  branch; a panic in \<open>currentState\<close> meets none of these. \<open>State\<close>, \<open>Reset\<close> and the deferred function
  unlock by \<open>defer\<close>, panics included.
\<close>

type_synonym guarded = "bool \<times> breaker"

fun Lock :: "guarded \<Rightarrow> guarded option" where
  "Lock (held, b) = (if held then None else Some (True, b))"

fun Unlock :: "guarded \<Rightarrow> guarded option" where
  "Unlock (held, b) = (if held then Some (False, b) else None)"

definition deferring_unlock ::
    "(breaker \<Rightarrow> 'a outcome \<times> breaker) \<Rightarrow> guarded \<Rightarrow> ('a outcome \<times> guarded) option" where
  "deferring_unlock op g = do {
     (held, b) \<leftarrow> Lock g;
     let (r, b') = op b;
     g' \<leftarrow> Unlock (held, b');
     Some (r, g')}"

definition State_locked :: "int \<Rightarrow> guarded \<Rightarrow> (cb_state outcome \<times> guarded) option" where
  "State_locked now = deferring_unlock (currentState now)"

definition Reset_locked :: "guarded \<Rightarrow> (unit outcome \<times> guarded) option" where
  "Reset_locked = deferring_unlock (transitionTo StateClosed)"

definition end_locked ::
    "int \<Rightarrow> gerror option \<Rightarrow> bool \<Rightarrow> gerror option outcome \<Rightarrow> guarded \<Rightarrow> (unit outcome \<times> guarded) option" where
  "end_locked now cerr isHalfOpenProbe out = deferring_unlock (end_execute now cerr isHalfOpenProbe out)"

definition begin_locked ::
    "int \<Rightarrow> gerror option \<Rightarrow> guarded \<Rightarrow> (admission outcome \<times> guarded) option" where
  "begin_locked now cerr g =
     (case cerr of
        Some e \<Rightarrow> Some (Returns (Rejected e), g)
      | None \<Rightarrow> do {
          (held, b) \<leftarrow> Lock g;
          case currentState now b of
            (Panics v, b') \<Rightarrow> Some (Panics v, (held, b'))
          | (Returns st, b') \<Rightarrow>
              (case st of
                 StateOpen \<Rightarrow> do {
                   g' \<leftarrow> Unlock (held, b');
                   Some (Returns (Rejected ErrCircuitOpen), g')}
               | StateHalfOpen \<Rightarrow>
                   (if halfOpenRequests b' \<ge> MaxHalfOpenRequests (config b')
                    then do {
                      g' \<leftarrow> Unlock (held, b');
                      Some (Returns (Rejected ErrTooManyRequests), g')}
                    else do {
                      g' \<leftarrow> Unlock (held, b'\<lparr>halfOpenRequests := halfOpenRequests b' + 1\<rparr>);
                      Some (Returns (Admitted True), g')})
               | StateClosed \<Rightarrow> do {
                   g' \<leftarrow> Unlock (held, b');
                   Some (Returns (Admitted False), g')})})"

lemmas cb_ops =
  transitionTo_def currentState_def recordSuccess_def recordFailure_def Reset_def
  Breaker_State_def to_def Let_def

lemmas cb_splits = outcome.splits cb_state.splits option.splits prod.splits if_splits admission.splits

lemma deferring_unlock_eq [simp]:
  "deferring_unlock op (held, b) = (if held then None else Some (fst (op b), False, snd (op b)))"
  by (simp add: deferring_unlock_def split: prod.split)

text \<open>Only a panic keeps the mutex, and only a call whose context is not done needs it.\<close>

lemma begin_locked_eq:
  "begin_locked now cerr (held, b) =
     (if held \<and> cerr = None then None
      else case begin_execute now cerr b of
             (Returns a, b') \<Rightarrow> Some (Returns a, held, b')
           | (Panics v, b') \<Rightarrow> Some (Panics v, True, b'))"
  by (auto simp: begin_locked_def begin_execute_def split: cb_splits)

end
