(* ===== verification/BreakerSpec.thy ===== *)
theory BreakerSpec
  imports Breaker
begin

text \<open>
  The circuit breaker, run without interleaving: its well-formedness invariant, the abstract
  countdown machine it refines (how many failures are left before it trips, when it may be probed,
  how many successes are left before it closes), and the properties that follow from either.
\<close>

section \<open>Well-formedness\<close>

definition config_ok :: "cb_config \<Rightarrow> bool" where
  "config_ok c \<longleftrightarrow> 0 < FailureThreshold c \<and> 0 < SuccessThreshold c \<and> 0 < Timeout c
     \<and> 0 < MaxHalfOpenRequests c"

definition counters_ok :: "breaker \<Rightarrow> bool" where
  "counters_ok b \<longleftrightarrow>
     (case state b of
        StateClosed \<Rightarrow> 0 \<le> failureCount b \<and> failureCount b < FailureThreshold (config b)
                       \<and> successCount b = 0
      | StateOpen \<Rightarrow> failureCount b = 0 \<and> successCount b = 0
      | StateHalfOpen \<Rightarrow> failureCount b = 0 \<and> 0 \<le> successCount b
                       \<and> successCount b < SuccessThreshold (config b))"

text \<open>The edges \<open>transitionTo\<close> is ever asked for: \<open>Reset\<close> adds the way back from open.\<close>

definition legal_edge :: "cb_state \<Rightarrow> cb_state \<Rightarrow> bool" where
  "legal_edge from t \<longleftrightarrow>
     (from, t) \<in> {(StateClosed, StateOpen), (StateOpen, StateHalfOpen), (StateOpen, StateClosed),
                 (StateHalfOpen, StateOpen), (StateHalfOpen, StateClosed)}"

fun legal_path :: "cb_state \<Rightarrow> (cb_state \<times> cb_state) list \<Rightarrow> cb_state \<Rightarrow> bool" where
  "legal_path s [] t = (s = t)"
| "legal_path s ((a, b) # es) t = (a = s \<and> legal_edge a b \<and> legal_path b es t)"

lemma legal_path_snoc [simp]:
  "legal_path s (es @ [(a, b)]) t \<longleftrightarrow> legal_path s es a \<and> legal_edge a b \<and> t = b"
  by (induction es arbitrary: s) auto

definition notified_ok :: "breaker \<Rightarrow> bool" where
  "notified_ok b \<longleftrightarrow>
     (case OnStateChange (config b) of
        None \<Rightarrow> notified b = []
      | Some _ \<Rightarrow> legal_path StateClosed (notified b) (state b))"

lemma notified_ok_counters [simp]:
  "notified_ok (b\<lparr>failureCount := n\<rparr>) = notified_ok b"
  "notified_ok (b\<lparr>successCount := n\<rparr>) = notified_ok b"
  "notified_ok (b\<lparr>halfOpenRequests := n\<rparr>) = notified_ok b"
  "notified_ok (b\<lparr>lastFailureTime := n\<rparr>) = notified_ok b"
  by (simp_all add: notified_ok_def split: option.split)

definition cb_wf :: "breaker \<Rightarrow> bool" where
  "cb_wf b \<longleftrightarrow> config_ok (config b) \<and> counters_ok b \<and> notified_ok b"

lemma sanitize_ok [simp]: "config_ok (sanitize c)"
  by (simp add: config_ok_def sanitize_def Let_def second_def)

lemma sanitize_id: "config_ok c \<Longrightarrow> sanitize c = c"
  by (simp add: config_ok_def sanitize_def Let_def)

lemma New_wf [simp]: "cb_wf (New_Breaker c)"
proof -
  have "0 < FailureThreshold (sanitize c)" using sanitize_ok [of c] by (simp add: config_ok_def)
  then show ?thesis
    by (simp add: cb_wf_def New_Breaker_def counters_ok_def notified_ok_def split: option.splits)
qed

lemma snd_transitionTo:
  "snd (transitionTo s b) =
     (if state b = s then b
      else b\<lparr>state := s, failureCount := 0, successCount := 0, halfOpenRequests := 0,
             notified := notified b @ (if OnStateChange (config b) = None then []
                                       else [(state b, s)])\<rparr>)"
  by (simp add: transitionTo_def Let_def to_def split: option.splits)

lemma snd_currentState:
  "snd (currentState now b) =
     (if state b = StateOpen \<and> now - lastFailureTime b \<ge> Timeout (config b)
      then snd (transitionTo StateHalfOpen b) else b)"
  by (simp add: currentState_def split: prod.splits outcome.splits)

lemma transitionTo_wf:
  assumes "config_ok (config b)" "notified_ok b" "s \<noteq> StateHalfOpen \<or> state b \<noteq> StateClosed"
    and "state b = s \<Longrightarrow> counters_ok b"
  shows "cb_wf (snd (transitionTo s b))"
  using assms
  by (cases "state b"; cases s)
     (auto simp: snd_transitionTo cb_wf_def counters_ok_def notified_ok_def config_ok_def
        legal_edge_def split: option.splits)

lemma currentState_wf:
  assumes "cb_wf b"
  shows "cb_wf (snd (currentState now b))"
proof -
  have "state b = StateOpen \<Longrightarrow> cb_wf (snd (transitionTo StateHalfOpen b))"
    using assms by (intro transitionTo_wf) (auto simp: cb_wf_def)
  with assms show ?thesis by (simp add: snd_currentState)
qed

lemma recordSuccess_wf:
  assumes "cb_wf b"
  shows "cb_wf (snd (recordSuccess b))"
proof (cases "state b")
  case StateHalfOpen
  let ?b = "b\<lparr>successCount := successCount b + 1\<rparr>"
  have closes: "cb_wf (snd (transitionTo StateClosed ?b))"
    by (rule transitionTo_wf) (use assms StateHalfOpen in \<open>auto simp: cb_wf_def\<close>)
  show ?thesis
  proof (cases "successCount b + 1 \<ge> SuccessThreshold (config b)")
    case True
    with closes StateHalfOpen show ?thesis by (simp add: recordSuccess_def Let_def)
  next
    case False
    with assms StateHalfOpen show ?thesis
      by (simp add: recordSuccess_def Let_def cb_wf_def counters_ok_def)
  qed
qed (use assms in \<open>auto simp: recordSuccess_def cb_wf_def counters_ok_def config_ok_def\<close>)

lemma recordFailure_wf:
  assumes "cb_wf b"
  shows "cb_wf (snd (recordFailure now b))"
proof -
  let ?b = "b\<lparr>lastFailureTime := now\<rparr>"
  let ?c = "?b\<lparr>failureCount := failureCount b + 1\<rparr>"
  have trips: "cb_wf (snd (transitionTo StateOpen d))" if "d = ?b \<or> d = ?c" "state b \<noteq> StateOpen" for d
    by (rule transitionTo_wf) (use assms that in \<open>auto simp: cb_wf_def\<close>)
  have closed: "snd (recordFailure now b) =
      (if failureCount b + 1 \<ge> FailureThreshold (config b) then snd (transitionTo StateOpen ?c) else ?c)"
    if "state b = StateClosed"
    using that by (simp add: recordFailure_def Let_def)
  show ?thesis
  proof (cases "state b")
    case StateClosed
    with assms trips [of ?c] show ?thesis
      by (auto simp: closed) (auto simp: cb_wf_def counters_ok_def)
  next
    case StateHalfOpen
    with trips [of ?b] show ?thesis by (simp add: recordFailure_def Let_def)
  next
    case StateOpen
    with assms show ?thesis by (simp add: recordFailure_def Let_def cb_wf_def counters_ok_def)
  qed
qed

lemma Reset_wf: "cb_wf b \<Longrightarrow> cb_wf (snd (Reset b))"
  unfolding Reset_def by (rule transitionTo_wf) (auto simp: cb_wf_def)

lemmas cb_wf_ops = currentState_wf recordSuccess_wf recordFailure_wf Reset_wf

text \<open>The probe counter is not part of the invariant: changing it alone keeps it.\<close>

lemma cb_wf_probes [simp]: "cb_wf (b\<lparr>halfOpenRequests := n\<rparr>) = cb_wf b"
  by (simp add: cb_wf_def counters_ok_def split: cb_state.split)

lemma begin_execute_wf:
  assumes "cb_wf b"
  shows "cb_wf (snd (begin_execute now cerr b))"
  using currentState_wf [OF assms, of now] assms
  by (auto simp: begin_execute_def split: cb_splits)

lemma end_execute_wf:
  assumes "cb_wf b"
  shows "cb_wf (snd (end_execute now cerr probe out b))"
  using assms
  by (auto simp: end_execute_def Let_def intro: recordSuccess_wf recordFailure_wf split: cb_splits)

lemma ExecuteContext_wf:
  assumes "cb_wf b"
  shows "cb_wf (snd (ExecuteContext c now fn b))"
proof -
  have "cb_wf b'" if "begin_execute now e b = (r, b')" for e r b'
    using begin_execute_wf [OF assms, of now e] that by simp
  moreover have "cb_wf b''" if "end_execute t e p out b' = (r, b'')" "cb_wf b'" for t e p out b' r b''
    using end_execute_wf [OF that(2), of t e p out] that(1) by simp
  ultimately show ?thesis
    by (fastforce simp: ExecuteContext_def Let_def split: cb_splits)
qed

lemma config_kept [simp]:
  "config (snd (transitionTo s b)) = config b"
  "config (snd (currentState now b)) = config b"
  "config (snd (recordSuccess b)) = config b"
  "config (snd (recordFailure now b)) = config b"
  "config (snd (Reset b)) = config b"
  by (auto simp: cb_ops split: cb_splits)

section \<open>The abstract specification: countdowns\<close>

datatype countdown =
    Failures_left nat      \<comment> \<open>closed: this many consecutive failures trip it\<close>
  | Probe_from int         \<comment> \<open>open: rejects until this time\<close>
  | Successes_left nat     \<comment> \<open>half-open: this many successes close it\<close>

datatype cb_event = Observe int | Success | Failure int | ManualReset

fun spec_event :: "cb_config \<Rightarrow> cb_event \<Rightarrow> countdown \<Rightarrow> countdown" where
  "spec_event c (Observe now) (Probe_from t) =
     (if t \<le> now then Successes_left (nat (SuccessThreshold c)) else Probe_from t)"
| "spec_event c (Observe now) a = a"
| "spec_event c Success (Failures_left n) = Failures_left (nat (FailureThreshold c))"
| "spec_event c Success (Successes_left n) =
     (if n \<le> 1 then Failures_left (nat (FailureThreshold c)) else Successes_left (n - 1))"
| "spec_event c Success (Probe_from t) = Probe_from t"
| "spec_event c (Failure now) (Failures_left n) =
     (if n \<le> 1 then Probe_from (now + Timeout c) else Failures_left (n - 1))"
| "spec_event c (Failure now) a = Probe_from (now + Timeout c)"
| "spec_event c ManualReset (Failures_left n) = Failures_left n"
| "spec_event c ManualReset a = Failures_left (nat (FailureThreshold c))"

definition countdown_of :: "breaker \<Rightarrow> countdown" where
  "countdown_of b =
     (case state b of
        StateClosed \<Rightarrow> Failures_left (nat (FailureThreshold (config b) - failureCount b))
      | StateOpen \<Rightarrow> Probe_from (lastFailureTime b + Timeout (config b))
      | StateHalfOpen \<Rightarrow> Successes_left (nat (SuccessThreshold (config b) - successCount b)))"

fun breaker_event :: "cb_event \<Rightarrow> breaker \<Rightarrow> breaker" where
  "breaker_event (Observe now) b = snd (currentState now b)"
| "breaker_event Success b = snd (recordSuccess b)"
| "breaker_event (Failure now) b = snd (recordFailure now b)"
| "breaker_event ManualReset b = snd (Reset b)"

definition cb_inv :: "cb_config \<Rightarrow> breaker \<Rightarrow> bool" where
  "cb_inv c b \<longleftrightarrow> cb_wf b \<and> config b = c"

lemma breaker_event_inv: "cb_inv c b \<Longrightarrow> cb_inv c (breaker_event e b)"
  by (cases e) (auto simp: cb_inv_def intro: cb_wf_ops)

lemma breaker_event_refines:
  assumes "cb_inv c b"
  shows "countdown_of (breaker_event e b) = spec_event c e (countdown_of b)"
  using assms
  by (cases e; cases "state b")
     (auto simp: cb_inv_def cb_wf_def config_ok_def counters_ok_def countdown_of_def
        snd_currentState snd_transitionTo recordSuccess_def recordFailure_def Reset_def Let_def
        algebra_simps nat_eq_iff)

interpretation countdown: simulation "cb_inv c" countdown_of breaker_event "spec_event c" for c
  by unfold_locales (fact breaker_event_inv breaker_event_refines)+

section \<open>Runs of calls\<close>

text \<open>A call: its context (nil allowed), the time it starts and the function it protects.\<close>

type_synonym call = "context_t option \<times> int \<times> (int \<Rightarrow> gerror option outcome \<times> int)"

fun run_call :: "call \<Rightarrow> breaker \<Rightarrow> breaker" where
  "run_call (c, now, fn) b = snd (ExecuteContext c now fn b)"

definition the_ctx :: "context_t option \<Rightarrow> context_t" where
  "the_ctx c = (case c of None \<Rightarrow> background | Some c' \<Rightarrow> c')"

text \<open>What counts as a failure, a success and a client abort for the code.\<close>

fun failing_call :: "call \<Rightarrow> bool" where
  "failing_call (c, now, fn) \<longleftrightarrow> ctx_err (the_ctx c) now = None
     \<and> (case fn now of
          (Panics _, later) \<Rightarrow> True
        | (Returns None, later) \<Rightarrow> False
        | (Returns (Some e), later) \<Rightarrow>
            \<not> errors_is e CtxCanceled \<and> \<not> err_is (ctx_err (the_ctx c) later) CtxCanceled)"

fun succeeding_call :: "call \<Rightarrow> bool" where
  "succeeding_call (c, now, fn) \<longleftrightarrow> ctx_err (the_ctx c) now = None \<and> fst (fn now) = Returns None"

fun aborted_call :: "call \<Rightarrow> bool" where
  "aborted_call (c, now, fn) \<longleftrightarrow> ctx_err (the_ctx c) now = None
     \<and> (case fn now of
          (Returns (Some e), later) \<Rightarrow>
            errors_is e CtxCanceled \<or> err_is (ctx_err (the_ctx c) later) CtxCanceled
        | _ \<Rightarrow> False)"

lemma ExecuteContext_the_ctx:
  "ExecuteContext c now fn b = ExecuteContext (Some (the_ctx c)) now fn b"
  by (simp add: ExecuteContext_def the_ctx_def split: option.split)

text \<open>An admitted call reduces to its deferred function.\<close>

lemma run_call_admitted:
  assumes "begin_execute now (ctx_err (the_ctx c) now) b = (Returns (Admitted p), b')"
  shows "run_call (c, now, fn) b =
    snd (end_execute (snd (fn now)) (ctx_err (the_ctx c) (snd (fn now))) p (fst (fn now)) b')"
proof -
  have "ExecuteContext (Some (the_ctx c)) now fn b =
      (case fn now of (out, later) \<Rightarrow>
         (case end_execute later (ctx_err (the_ctx c) later) p out b' of
            (Panics v, b'') \<Rightarrow> (Panics v, b'') | (Returns _, b'') \<Rightarrow> (out, b'')))"
    using assms by (simp add: ExecuteContext_def)
  then show ?thesis
    by (simp add: ExecuteContext_the_ctx [of c] case_prod_beta split: outcome.split prod.split)
qed

lemma begin_closed [simp]:
  "state b = StateClosed \<Longrightarrow> begin_execute now None b = (Returns (Admitted False), b)"
  by (simp add: begin_execute_def currentState_def)

lemma end_failing:
  "failing_call (c, now, fn) \<Longrightarrow>
     end_execute (snd (fn now)) (ctx_err (the_ctx c) (snd (fn now))) False (fst (fn now)) b
       = recordFailure (snd (fn now)) b"
  by (auto simp: end_execute_def split: prod.splits outcome.splits option.splits)

lemma run_call_failing:
  assumes "failing_call (c, now, fn)" "state b = StateClosed"
  shows "run_call (c, now, fn) b = snd (recordFailure (snd (fn now)) b)"
proof -
  from assms have "begin_execute now (ctx_err (the_ctx c) now) b = (Returns (Admitted False), b)"
    by simp
  from run_call_admitted [OF this] end_failing [OF assms(1)] show ?thesis by simp
qed

lemma failures_count_up:
  assumes "list_all failing_call cs" "state b = StateClosed"
    and "failureCount b + int (length cs) < FailureThreshold (config b)"
  shows "state (fold run_call cs b) = StateClosed
    \<and> failureCount (fold run_call cs b) = failureCount b + int (length cs)
    \<and> config (fold run_call cs b) = config b"
  using assms
proof (induction cs arbitrary: b)
  case (Cons x cs)
  obtain c now fn where x: "x = (c, now, fn)" by (cases x)
  let ?b = "run_call x b"
  have "?b = snd (recordFailure (snd (fn now)) b)"
    using Cons.prems x by (intro run_call_failing [of c now fn b, folded x]) auto
  with Cons.prems have "state ?b = StateClosed" "failureCount ?b = failureCount b + 1" "config ?b = config b"
    by (simp_all add: recordFailure_def Let_def)
  with Cons.IH [of ?b] Cons.prems show ?case by simp
qed simp

lemma trips_at_threshold:
  assumes "list_all failing_call cs" "cb_wf b" "state b = StateClosed" "failureCount b = 0"
    and "int (length cs) = FailureThreshold (config b)"
  shows "state (fold run_call cs b) = StateOpen"
proof -
  have "cs \<noteq> []" using assms(2,5) by (auto simp: cb_wf_def config_ok_def)
  then obtain ds x where cs: "cs = ds @ [x]" by (metis rev_exhaust)
  obtain c now fn where x: "x = (c, now, fn)" by (cases x)
  let ?d = "fold run_call ds b"
  have d: "state ?d = StateClosed" "failureCount ?d = int (length ds)" "config ?d = config b"
    using failures_count_up [of ds b] assms cs by auto
  have "run_call x ?d = snd (recordFailure (snd (fn now)) ?d)"
    using assms(1) cs x d by (intro run_call_failing [of c now fn ?d, folded x]) auto
  with d assms(5) cs show ?thesis
    by (simp add: recordFailure_def Let_def snd_transitionTo)
qed

text \<open>A callback that does not panic.\<close>

definition quiet :: "cb_config \<Rightarrow> bool" where
  "quiet c \<longleftrightarrow> (case OnStateChange c of None \<Rightarrow> True | Some f \<Rightarrow> \<forall>a \<in> {StateClosed, StateOpen, StateHalfOpen}.
     \<forall>b \<in> {StateClosed, StateOpen, StateHalfOpen}. f a b = Returns ())"

lemma quiet_callback: "quiet c \<Longrightarrow> OnStateChange c = Some f \<Longrightarrow> f a b = Returns ()"
  by (cases a; cases b) (simp_all add: quiet_def)

lemma quiet_transitionTo [simp]:
  "quiet (config b) \<Longrightarrow> fst (transitionTo s b) = Returns ()"
  by (auto simp: transitionTo_def Let_def quiet_callback split: option.splits)

lemma quiet_currentState:
  assumes "quiet (config b)"
  shows "currentState now b = (Returns (state (snd (currentState now b))), snd (currentState now b))"
proof -
  have "transitionTo StateHalfOpen b = (Returns (), snd (transitionTo StateHalfOpen b))"
    using quiet_transitionTo [OF assms] by (metis prod.collapse)
  then show ?thesis by (auto simp: currentState_def split: prod.splits outcome.splits)
qed

text \<open>A breaker ready to probe: half-open, or open with the timeout elapsed.\<close>

lemma begin_half_open:
  assumes "state b = StateHalfOpen" "halfOpenRequests b = 0" "config_ok (config b)"
  shows "begin_execute now None b = (Returns (Admitted True), b\<lparr>halfOpenRequests := 1\<rparr>)"
  using assms by (simp add: begin_execute_def currentState_def config_ok_def)

lemma run_call_probe_success:
  assumes "succeeding_call (c, now, fn)" "state b = StateHalfOpen" "halfOpenRequests b = 0"
    and "config_ok (config b)"
  shows "run_call (c, now, fn) b = snd (recordSuccess b)"
proof -
  from assms have "begin_execute now (ctx_err (the_ctx c) now) b
      = (Returns (Admitted True), b\<lparr>halfOpenRequests := 1\<rparr>)"
    by (simp add: begin_half_open)
  moreover have "b\<lparr>halfOpenRequests := 0\<rparr> = b" using assms(3) by (metis breaker.surjective breaker.update_convs(5))
  ultimately show ?thesis
    using run_call_admitted [of now c b] assms(1) by (simp add: end_execute_def Let_def)
qed

lemma successes_count_up:
  assumes "list_all succeeding_call cs" "state b = StateHalfOpen" "halfOpenRequests b = 0"
    and "config_ok (config b)"
    and "successCount b + int (length cs) < SuccessThreshold (config b)"
  shows "state (fold run_call cs b) = StateHalfOpen
    \<and> successCount (fold run_call cs b) = successCount b + int (length cs)
    \<and> halfOpenRequests (fold run_call cs b) = 0 \<and> config (fold run_call cs b) = config b"
  using assms
proof (induction cs arbitrary: b)
  case (Cons x cs)
  obtain c now fn where x: "x = (c, now, fn)" by (cases x)
  let ?b = "run_call x b"
  have "?b = snd (recordSuccess b)"
    using Cons.prems x by (intro run_call_probe_success [of c now fn b, folded x]) auto
  with Cons.prems have "state ?b = StateHalfOpen" "successCount ?b = successCount b + 1"
    "halfOpenRequests ?b = 0" "config ?b = config b"
    by (simp_all add: recordSuccess_def Let_def)
  with Cons.IH [of ?b] Cons.prems show ?case by simp
qed simp

lemma closes_at_threshold:
  assumes "list_all succeeding_call cs" "state b = StateHalfOpen" "halfOpenRequests b = 0"
    and "config_ok (config b)" "successCount b = 0"
    and "int (length cs) = SuccessThreshold (config b)"
  shows "state (fold run_call cs b) = StateClosed \<and> failureCount (fold run_call cs b) = 0"
proof -
  have "cs \<noteq> []" using assms(4,6) by (auto simp: config_ok_def)
  then obtain ds x where cs: "cs = ds @ [x]" by (metis rev_exhaust)
  obtain c now fn where x: "x = (c, now, fn)" by (cases x)
  let ?d = "fold run_call ds b"
  have d: "state ?d = StateHalfOpen" "successCount ?d = int (length ds)"
      "halfOpenRequests ?d = 0" "config ?d = config b"
    using successes_count_up [of ds b] assms cs by auto
  have "run_call x ?d = snd (recordSuccess ?d)"
    using assms cs x d by (intro run_call_probe_success [of c now fn ?d, folded x]) auto
  with d assms(6) cs show ?thesis
    by (simp add: recordSuccess_def Let_def snd_transitionTo)
qed

text \<open>The first call after the timeout does what it would do on the breaker it half-opens.\<close>

lemma run_call_half_opens:
  assumes "state b = StateOpen" "now - lastFailureTime b \<ge> Timeout (config b)" "quiet (config b)"
    and "ctx_err (the_ctx c) now = None"
  shows "run_call (c, now, fn) b = run_call (c, now, fn) (snd (transitionTo StateHalfOpen b))"
proof -
  let ?h = "snd (transitionTo StateHalfOpen b)"
  have "currentState now b = (Returns (state ?h), ?h)"
    using quiet_currentState [OF assms(3), of now] assms(1,2) by (simp add: snd_currentState)
  moreover have "currentState now ?h = (Returns (state ?h), ?h)"
    using assms(1) by (simp add: currentState_def snd_transitionTo)
  ultimately have "begin_execute now None b = begin_execute now None ?h"
    by (simp add: begin_execute_def)
  then have "ExecuteContext (Some (the_ctx c)) now fn b = ExecuteContext (Some (the_ctx c)) now fn ?h"
    using assms(4) by (simp add: ExecuteContext_def)
  then show ?thesis by (simp add: ExecuteContext_the_ctx [of c])
qed

lemma quiet_end_execute [simp]:
  "quiet (config b) \<Longrightarrow> fst (end_execute now e p out b) = Returns ()"
  by (auto simp: end_execute_def recordSuccess_def recordFailure_def Let_def split: cb_splits)

text \<open>
  \<open>Reset\<close> is documented to clear all statistics. In the closed state it clears none: with one failure
  left before the threshold, the next failure after a reset still trips the breaker.
\<close>

lemma reset_closed_keeps_failures:
  "state b = StateClosed \<Longrightarrow> Reset b = (Returns (), b)"
  by (simp add: Reset_def transitionTo_def)

lemma reset_then_failure_trips:
  assumes "state b = StateClosed" "failureCount b = FailureThreshold (config b) - 1"
  shows "state (snd (recordFailure now (snd (Reset b)))) = StateOpen"
  using assms by (simp add: reset_closed_keeps_failures recordFailure_def Let_def snd_transitionTo)

section \<open>Properties\<close>

text \<open>
  C1: every run of the breaker's transitions (state observations, recorded successes and failures,
  manual resets, in any order and at any times) refines the countdown specification: it trips when
  the countdown of failures is used up, rejects until the last failure is \<open>Timeout\<close> old, closes when
  the countdown of successes is used up, and a failed probe opens it again. A reset of a breaker that
  is not closed starts a full countdown of failures; one of a breaker that is closed changes nothing,
  the failures counted so far included (the code's comment promises to clear all statistics).
\<close>

theorem breaker_refines_countdown:
  "countdown_of (fold breaker_event es (New_Breaker cfg)) =
     fold (spec_event (sanitize cfg)) es (Failures_left (nat (FailureThreshold (sanitize cfg))))"
proof -
  have "cb_inv (sanitize cfg) (New_Breaker cfg)"
    using New_wf [of cfg] by (simp add: cb_inv_def New_Breaker_def)
  from countdown.run_abs [OF this, of es] show ?thesis
    by (simp add: countdown_of_def New_Breaker_def)
qed

text \<open>
  A fresh breaker trips at exactly \<open>FailureThreshold\<close> consecutive failing calls: with fewer it
  is still closed and has counted each of them, and the last one opens it.
\<close>

theorem breaker_trips_exactly:
  assumes "list_all failing_call cs"
  shows "(int (length cs) < FailureThreshold (sanitize cfg) \<longrightarrow>
            state (fold run_call cs (New_Breaker cfg)) = StateClosed
            \<and> failureCount (fold run_call cs (New_Breaker cfg)) = int (length cs))
       \<and> (int (length cs) = FailureThreshold (sanitize cfg) \<longrightarrow>
            state (fold run_call cs (New_Breaker cfg)) = StateOpen)"
  using failures_count_up [OF assms, of "New_Breaker cfg"]
    trips_at_threshold [OF assms, of "New_Breaker cfg"]
  by (simp add: New_Breaker_def) (use New_wf [of cfg] in \<open>simp add: New_Breaker_def\<close>)

theorem breaker_trips_exactly_witness:
  "state (fold run_call
     (replicate 5 (None, 7, \<lambda>t. (Returns (Some (Opaque 1)), t + 1))) (New_Breaker DefaultConfig))
   = StateOpen"
proof -
  have f: "list_all failing_call (replicate 5 (None, 7, \<lambda>t. (Returns (Some (Opaque 1)), t + 1)))"
    by (simp add: the_ctx_def list_all_length)
  have "FailureThreshold (sanitize DefaultConfig) = 5"
    by (simp add: sanitize_def DefaultConfig_def second_def)
  with breaker_trips_exactly [OF f, of DefaultConfig] show ?thesis by simp
qed

text \<open>
  While a breaker is open and its timeout has not elapsed, a call fails fast: the protected
  function is not run (the outcome is the same whatever it is), the caller gets \<open>ErrCircuitOpen\<close>
  (or its own context's error, when that is already done) and the breaker is left unchanged.
\<close>

theorem open_breaker_rejects:
  assumes "state b = StateOpen" "now - lastFailureTime b < Timeout (config b)"
  shows "ExecuteContext c now fn b =
    (Returns (Some (case ctx_err (the_ctx c) now of None \<Rightarrow> ErrCircuitOpen | Some e \<Rightarrow> e)), b)"
  using assms
  by (simp add: ExecuteContext_the_ctx [of c])
     (simp add: ExecuteContext_def begin_execute_def currentState_def split: option.split)

theorem open_breaker_rejects_witness:
  "ExecuteContext None 10 (\<lambda>t. (Panics PNilDeref, t))
     (New_Breaker DefaultConfig\<lparr>state := StateOpen, lastFailureTime := 5\<rparr>)
   = (Returns (Some ErrCircuitOpen), New_Breaker DefaultConfig\<lparr>state := StateOpen, lastFailureTime := 5\<rparr>)"
proof -
  let ?b = "New_Breaker DefaultConfig\<lparr>state := StateOpen, lastFailureTime := 5\<rparr>"
  have "state ?b = StateOpen" "(10::int) - lastFailureTime ?b < Timeout (config ?b)"
    by (simp_all add: New_Breaker_def sanitize_def DefaultConfig_def second_def)
  from open_breaker_rejects [OF this, of None "\<lambda>t. (Panics PNilDeref, t)"] show ?thesis
    by (simp add: the_ctx_def)
qed

text \<open>
  An open breaker recovers: once the timeout has elapsed, \<open>SuccessThreshold\<close> successful calls
  close it (and clear the failure count), and with fewer it is half-open and has counted each.
\<close>

theorem breaker_recovers:
  assumes "state b = StateOpen" "config_ok (config b)" "quiet (config b)"
    and "list_all succeeding_call ((c, now, fn) # cs)"
    and "now - lastFailureTime b \<ge> Timeout (config b)"
  shows "(int (length cs) + 1 < SuccessThreshold (config b) \<longrightarrow>
            state (fold run_call ((c, now, fn) # cs) b) = StateHalfOpen
            \<and> successCount (fold run_call ((c, now, fn) # cs) b) = int (length cs) + 1)
       \<and> (int (length cs) + 1 = SuccessThreshold (config b) \<longrightarrow>
            state (fold run_call ((c, now, fn) # cs) b) = StateClosed
            \<and> failureCount (fold run_call ((c, now, fn) # cs) b) = 0)"
proof -
  let ?h = "snd (transitionTo StateHalfOpen b)"
  have h: "state ?h = StateHalfOpen" "halfOpenRequests ?h = 0" "successCount ?h = 0" "config ?h = config b"
    using assms(1) by (simp_all add: snd_transitionTo)
  have "run_call (c, now, fn) b = run_call (c, now, fn) ?h"
    using assms by (intro run_call_half_opens) simp_all
  then have "fold run_call ((c, now, fn) # cs) b = fold run_call ((c, now, fn) # cs) ?h" by simp
  with successes_count_up [OF assms(4) h(1,2)] closes_at_threshold [OF assms(4) h(1,2)] h assms(2)
  show ?thesis by (metis add.commute length_Cons add_0 of_nat_Suc)
qed

theorem breaker_recovers_witness:
  "state (fold run_call
     [(None, 40 * second, \<lambda>t. (Returns None, t + 1)), (None, 41 * second, \<lambda>t. (Returns None, t + 1))]
     (New_Breaker DefaultConfig\<lparr>state := StateOpen, lastFailureTime := 5\<rparr>)) = StateClosed"
proof -
  let ?b = "New_Breaker DefaultConfig\<lparr>state := StateOpen, lastFailureTime := 5\<rparr>"
  let ?cs = "[(None, 41 * second, \<lambda>t. (Returns None, t + 1))] :: call list"
  have cfg: "config ?b = DefaultConfig" and st: "SuccessThreshold DefaultConfig = 2"
    by (simp_all add: New_Breaker_def sanitize_def DefaultConfig_def second_def)
  have "state ?b = StateOpen" "config_ok (config ?b)" "quiet (config ?b)"
    "list_all succeeding_call ((None, 40 * second, \<lambda>t. (Returns None, t + 1)) # ?cs)"
    "40 * second - lastFailureTime ?b \<ge> Timeout (config ?b)"
    by (simp_all add: cfg config_ok_def quiet_def the_ctx_def)
       (simp_all add: DefaultConfig_def second_def)
  from breaker_recovers [OF this] show ?thesis by (simp add: cfg st)
qed

text \<open>
  C27: a client that aborts (the function returns \<open>context.Canceled\<close>, or its context is cancelled by
  the time it returns an error) does not penalise the service: apart from the open-to-half-open
  move any call may make when it looks at the clock, the breaker is unchanged, counters and probe
  slots included.
\<close>

theorem client_abort_is_neutral:
  assumes "aborted_call (c, now, fn)"
  shows "snd (ExecuteContext c now fn b) = snd (currentState now b)"
proof -
  have ok: "ctx_err (the_ctx c) now = None" using assms by simp
  have neutral: "snd (end_execute (snd (fn now)) (ctx_err (the_ctx c) (snd (fn now))) p (fst (fn now)) d)
      = (if p then d\<lparr>halfOpenRequests := halfOpenRequests d - 1\<rparr> else d)" for p d
    using assms by (auto simp: end_execute_def split: prod.splits outcome.splits option.splits)
  show ?thesis
  proof (cases "begin_execute now None b")
    case (Pair r b')
    have b': "b' = (if r = Returns (Admitted True)
        then snd (currentState now b)\<lparr>halfOpenRequests := halfOpenRequests (snd (currentState now b)) + 1\<rparr>
        else snd (currentState now b))"
      using Pair by (auto simp: begin_execute_def split: cb_splits)
    show ?thesis
    proof (cases "\<exists>p. r = Returns (Admitted p)")
      case True
      then obtain p where r: "r = Returns (Admitted p)" by blast
      then have "run_call (c, now, fn) b =
          (if p then b'\<lparr>halfOpenRequests := halfOpenRequests b' - 1\<rparr> else b')"
        using run_call_admitted [of now c b p b' fn] Pair ok neutral by simp
      with b' r show ?thesis by simp
    next
      case False
      with Pair ok have "snd (ExecuteContext (Some (the_ctx c)) now fn b) = b'"
        by (auto simp: ExecuteContext_def split: outcome.splits admission.splits)
      with False b' show ?thesis by (auto simp: ExecuteContext_the_ctx [of c])
    qed
  qed
qed

theorem client_abort_is_neutral_witness:
  "snd (ExecuteContext (Some \<lparr>done_at = Some 3, cause = CtxCanceled\<rparr>) 1
      (\<lambda>t. (Returns (Some (Opaque 9)), 4)) (New_Breaker DefaultConfig)) = New_Breaker DefaultConfig"
proof -
  let ?c = "Some \<lparr>done_at = Some 3, cause = CtxCanceled\<rparr>"
  have "aborted_call (?c, 1, \<lambda>t. (Returns (Some (Opaque 9)), 4))"
    by (simp add: the_ctx_def ctx_err_def)
  from client_abort_is_neutral [OF this, of "New_Breaker DefaultConfig"] show ?thesis
    by (simp add: currentState_def New_Breaker_def)
qed

text \<open>
  What a call returns, on every branch: the context's error if it is done before the call,
  \<open>ErrCircuitOpen\<close> when open, \<open>ErrTooManyRequests\<close> when half-open with all probe slots taken, and
  otherwise exactly what the protected function does, a panic included.
\<close>

theorem execute_outcome:
  assumes "quiet (config b)"
  shows "fst (ExecuteContext c now fn b) =
    (case ctx_err (the_ctx c) now of
       Some e \<Rightarrow> Returns (Some e)
     | None \<Rightarrow>
         let b' = snd (currentState now b)
         in case state b' of
              StateOpen \<Rightarrow> Returns (Some ErrCircuitOpen)
            | StateHalfOpen \<Rightarrow>
                if halfOpenRequests b' \<ge> MaxHalfOpenRequests (config b)
                then Returns (Some ErrTooManyRequests) else fst (fn now)
            | StateClosed \<Rightarrow> fst (fn now))"
proof -
  define b' where "b' = snd (currentState now b)"
  have cur: "currentState now b = (Returns (state b'), b')"
    using quiet_currentState [OF assms] by (simp add: b'_def)
  have cfg: "config b' = config b" by (simp add: b'_def)
  show ?thesis
  proof (cases "ctx_err (the_ctx c) now")
    case None
    then show ?thesis
      unfolding ExecuteContext_the_ctx [of c] Let_def b'_def [symmetric]
      by (cases "state b'")
         (simp_all add: ExecuteContext_def begin_execute_def cur cfg assms Let_def case_prod_beta)
  next
    case (Some e)
    then show ?thesis
      unfolding ExecuteContext_the_ctx [of c] by (simp add: ExecuteContext_def begin_execute_def)
  qed
qed

theorem execute_outcome_witness:
  "fst (ExecuteContext None 1 (\<lambda>t. (Panics (PUser 3), t)) (New_Breaker DefaultConfig)) = Panics (PUser 3)"
proof -
  have "quiet (config (New_Breaker DefaultConfig))"
    by (simp add: quiet_def New_Breaker_def sanitize_def DefaultConfig_def second_def)
  from execute_outcome [OF this, of None 1 "\<lambda>t. (Panics (PUser 3), t)"] show ?thesis
    by (simp add: the_ctx_def currentState_def New_Breaker_def)
qed

end
