(* ===== verification/BreakerConc.thy ===== *)
theory BreakerConc
  imports BreakerSpec
begin

text \<open>
  The circuit breaker under concurrency. Each critical section of \<open>Breaker.mu\<close> is one atomic step;
  calls are in flight between the two critical sections of \<open>ExecuteContext\<close>, with the mutex free, so
  any number of them overlap and finish in any order. The mutex is part of the state and the steps are
  the code's own locking and unlocking (\<open>begin_locked\<close>, \<open>end_locked\<close>, \<open>State_locked\<close>,
  \<open>Reset_locked\<close>): a panic of the callback in the first section leaves it held, and then no step that
  locks it is possible, while a call whose context is already done still returns.

  Two ghost fields make the probe accounting expressible: \<open>phase\<close> numbers the breaker's state
  changes, so that a ticket tells in which phase its call was admitted, and \<open>stale_done\<close> counts the
  probes of earlier phases that have finished in the present one.
\<close>

datatype ticket = Ticket (t_probe: bool) (t_phase: nat)

record cb_sys =
  brk :: breaker
  clock :: int
  mu :: bool
  pending :: "ticket multiset"
  phase :: nat
  stale_done :: nat

definition install :: "breaker \<Rightarrow> cb_sys \<Rightarrow> cb_sys" where
  "install b s =
     (if state b = state (brk s) then s\<lparr>brk := b\<rparr>
      else s\<lparr>brk := b, phase := Suc (phase s), stale_done := 0\<rparr>)"

definition retire :: "ticket \<Rightarrow> cb_sys \<Rightarrow> cb_sys" where
  "retire t s = s\<lparr>pending := pending s - {#t#},
     stale_done := stale_done s + (if t_probe t \<and> t_phase t \<noteq> phase s then 1 else 0)\<rparr>"

text \<open>What the scheduler and the environment choose at each step.\<close>

datatype act =
    Pass_time int
  | Begin_call "gerror option"                          \<comment> \<open>\<open>ctx.Err()\<close> as the call sees it\<close>
  | Finish_call ticket "gerror option" "gerror option outcome"
  | Read_state
  | Reset_breaker

definition guarded_brk :: "cb_sys \<Rightarrow> guarded" where
  "guarded_brk s = (mu s, brk s)"

definition store :: "guarded \<Rightarrow> cb_sys \<Rightarrow> cb_sys" where
  "store g s = (install (snd g) s)\<lparr>mu := fst g\<rparr>"

fun perform :: "act \<Rightarrow> cb_sys \<Rightarrow> cb_sys option" where
  "perform (Pass_time d) s = (if 0 \<le> d then Some (s\<lparr>clock := clock s + d\<rparr>) else None)"
| "perform (Begin_call cerr) s = do {
     (r, g) \<leftarrow> begin_locked (clock s) cerr (guarded_brk s);
     let s' = store g s;
     Some (case r of
         Returns (Admitted p) \<Rightarrow> s'\<lparr>pending := add_mset (Ticket p (phase s')) (pending s')\<rparr>
       | _ \<Rightarrow> s')}"
| "perform (Finish_call t cerr out) s = do {
     (r, g) \<leftarrow> end_locked (clock s) cerr (t_probe t) out (guarded_brk s);
     if t \<in># pending s then Some (store g (retire t s)) else None}"
| "perform Read_state s = do {
     (r, g) \<leftarrow> State_locked (clock s) (guarded_brk s);
     Some (store g s)}"
| "perform Reset_breaker s = do {
     (r, g) \<leftarrow> Reset_locked (guarded_brk s);
     Some (store g s)}"

lemma install_mu [simp]: "mu (install b s) = mu s"
  by (simp add: install_def)

lemma store_same_mu [simp]: "store (mu s, b) s = install b s"
  by (cases s) (simp add: store_def install_def)

lemma store_free: "\<not> mu s \<Longrightarrow> store (False, b) s = install b s"
  using store_same_mu [of s b] by simp

text \<open>The steps with the mutex and the breaker told apart.\<close>

lemma perform_begin:
  "perform (Begin_call cerr) s =
     (if mu s \<and> cerr = None then None
      else case begin_execute (clock s) cerr (brk s) of
             (Returns (Rejected e), b) \<Rightarrow> Some (install b s)
           | (Returns (Admitted p), b) \<Rightarrow>
               (let s' = install b s
                in Some (s'\<lparr>pending := add_mset (Ticket p (phase s')) (pending s')\<rparr>))
           | (Panics v, b) \<Rightarrow> Some ((install b s)\<lparr>mu := True\<rparr>))"
  by (auto simp: guarded_brk_def begin_locked_eq Let_def store_def [of "(True, b)" for b] split: cb_splits)

lemma perform_finish:
  "perform (Finish_call t cerr out) s =
     (if mu s \<or> t \<notin># pending s then None
      else Some (install (snd (end_execute (clock s) cerr (t_probe t) out (brk s))) (retire t s)))"
  by (auto simp: guarded_brk_def end_locked_def retire_def store_free)

lemma perform_read:
  "perform Read_state s =
     (if mu s then None else Some (install (snd (Breaker_State (clock s) (brk s))) s))"
  by (auto simp: guarded_brk_def State_locked_def Breaker_State_def store_free)

lemma perform_reset:
  "perform Reset_breaker s =
     (if mu s then None else Some (install (snd (Reset (brk s))) s))"
  by (auto simp: guarded_brk_def Reset_locked_def Reset_def store_free)

declare perform.simps(2-5) [simp del]
declare perform_begin [simp] perform_finish [simp] perform_read [simp] perform_reset [simp]

definition cb_init :: "cb_config \<Rightarrow> cb_sys \<Rightarrow> bool" where
  "cb_init c s \<longleftrightarrow> brk s = New_Breaker c \<and> \<not> mu s \<and> pending s = {#} \<and> phase s = 0 \<and> stale_done s = 0"

inductive cb_step :: "cb_sys \<Rightarrow> cb_sys \<Rightarrow> bool" where
  cb_stepI: "perform a s = Some t \<Longrightarrow> cb_step s t"

text \<open>The probes in flight that were admitted in the present phase.\<close>

definition current_probes :: "cb_sys \<Rightarrow> nat" where
  "current_probes s = size (filter_mset (\<lambda>t. t_probe t \<and> t_phase t = phase s) (pending s))"

section \<open>Probe accounting\<close>

text \<open>
  Every operation either stays in its state and sets the probe counter to \<open>h\<close>, or changes state
  and leaves it cleared.
\<close>

definition moves :: "breaker \<Rightarrow> breaker \<Rightarrow> int \<Rightarrow> bool" where
  "moves b b' h \<longleftrightarrow>
     (if state b' = state b then halfOpenRequests b' = h else halfOpenRequests b' = 0)"

lemma moves_transitionTo [go_step]:
  "h = halfOpenRequests b \<Longrightarrow> moves b (snd (transitionTo s b)) h"
  by (simp add: moves_def snd_transitionTo)

lemma moves_currentState [go_step]: "moves b (snd (currentState now b)) (halfOpenRequests b)"
  by (simp add: moves_def snd_currentState snd_transitionTo)

lemma moves_end [go_step]:
  "moves b (snd (end_execute now cerr p out b)) (halfOpenRequests b - (if p then 1 else 0))"
  by (cases "state b"; auto simp: moves_def end_execute_def recordSuccess_def recordFailure_def
        Let_def snd_transitionTo split: outcome.split option.split)

definition probe_inv :: "cb_sys \<Rightarrow> bool" where
  "probe_inv s \<longleftrightarrow> (\<forall>t \<in># pending s. t_phase t \<le> phase s)
     \<and> halfOpenRequests (brk s) = int (current_probes s) - int (stale_done s)
     \<and> (state (brk s) \<noteq> StateHalfOpen \<longrightarrow> current_probes s = 0)"

text \<open>A new phase starts with no probe of its own.\<close>

lemma current_probes_new_phase:
  assumes "\<forall>t \<in># pending s. t_phase t \<le> phase s" "pending s' = pending s" "phase s' = Suc (phase s)"
  shows "current_probes s' = 0"
proof -
  have "filter_mset (\<lambda>t. t_probe t \<and> t_phase t = Suc (phase s)) (pending s) = {#}"
    using assms(1) by auto
  with assms show ?thesis by (simp add: current_probes_def)
qed

lemma current_probes_install:
  "current_probes (install b s) =
     (if state b = state (brk s) then current_probes s else current_probes (install b s))"
  by (simp add: install_def current_probes_def)

lemma install_probe_inv:
  assumes "\<forall>t \<in># pending s. t_phase t \<le> phase s"
    and "moves (brk s) b (int (current_probes s) - int (stale_done s))"
    and "state (brk s) \<noteq> StateHalfOpen \<longrightarrow> current_probes s = 0"
  shows "probe_inv (install b s)"
proof (cases "state b = state (brk s)")
  case True
  with assms show ?thesis
    by (simp add: probe_inv_def install_def moves_def current_probes_def)
next
  case False
  moreover from this have "current_probes (install b s) = 0"
    by (intro current_probes_new_phase [OF assms(1)]) (simp_all add: install_def)
  ultimately show ?thesis
    using assms by (auto simp: probe_inv_def install_def moves_def)
qed

lemma retire_accounting:
  assumes "probe_inv s" "t \<in># pending s"
  shows "(\<forall>u \<in># pending (retire t s). t_phase u \<le> phase (retire t s))
    \<and> int (current_probes (retire t s)) - int (stale_done (retire t s))
        = halfOpenRequests (brk s) - (if t_probe t then 1 else 0)
    \<and> (state (brk s) \<noteq> StateHalfOpen \<longrightarrow> current_probes (retire t s) = 0)"
proof -
  obtain M where M: "pending s = add_mset t M" using assms(2) by (metis multi_member_split)
  then show ?thesis
    using assms(1) by (auto simp: probe_inv_def retire_def current_probes_def split: if_splits)
qed

section \<open>The invariant of the system\<close>

definition cb_sys_inv :: "cb_config \<Rightarrow> cb_sys \<Rightarrow> bool" where
  "cb_sys_inv c s \<longleftrightarrow> cb_wf (brk s) \<and> config (brk s) = sanitize c \<and> probe_inv s
     \<and> halfOpenRequests (brk s) \<le> MaxHalfOpenRequests (sanitize c)
     \<and> (quiet (sanitize c) \<longrightarrow> \<not> mu s)"

lemma begin_Rejected:
  "begin_execute now cerr b = (Returns (Rejected e), b') \<Longrightarrow> b' = b \<or> b' = snd (currentState now b)"
  by (auto simp: begin_execute_def split: cb_splits)

lemma begin_Admitted:
  "begin_execute now cerr b = (Returns (Admitted p), b') \<Longrightarrow>
     (if p then state (snd (currentState now b)) = StateHalfOpen
             \<and> halfOpenRequests (snd (currentState now b)) < MaxHalfOpenRequests (config b)
             \<and> b' = snd (currentState now b)
                 \<lparr>halfOpenRequests := halfOpenRequests (snd (currentState now b)) + 1\<rparr>
      else state (snd (currentState now b)) = StateClosed \<and> b' = snd (currentState now b))"
proof -
  assume a: "begin_execute now cerr b = (Returns (Admitted p), b')"
  obtain r c where rc: "currentState now b = (r, c)" by (cases "currentState now b")
  moreover have "config c = config b" using config_kept(2) [of now b] rc by simp
  moreover have "r = Returns st \<Longrightarrow> state c = st" for st
    using rc by (auto simp: currentState_def split: cb_splits)
  ultimately show ?thesis using a by (auto simp: begin_execute_def split: cb_splits)
qed

lemma begin_Panics:
  assumes "begin_execute now cerr b = (Panics v, b')"
  shows "b' = snd (currentState now b) \<and> \<not> quiet (config b)"
proof
  show "b' = snd (currentState now b)"
    using assms by (auto simp: begin_execute_def split: cb_splits)
  show "\<not> quiet (config b)"
    using assms quiet_currentState [of b now]
    by (auto simp: begin_execute_def split: cb_splits)
qed

text \<open>Installing the result of an operation that \<open>moves\<close> the breaker keeps the invariant.\<close>

lemma install_inv:
  assumes "cb_wf b" "config b = sanitize c" "\<forall>t \<in># pending s. t_phase t \<le> phase s"
    and "moves (brk s) b h" "h = int (current_probes s) - int (stale_done s)"
    and "h \<le> MaxHalfOpenRequests (sanitize c)"
    and "state (brk s) \<noteq> StateHalfOpen \<longrightarrow> current_probes s = 0"
    and "quiet (sanitize c) \<longrightarrow> \<not> mu s"
  shows "cb_sys_inv c (install b s)"
proof -
  have "probe_inv (install b s)" using assms by (intro install_probe_inv) simp_all
  moreover have "halfOpenRequests b \<le> MaxHalfOpenRequests (sanitize c)"
    using assms(4,6) sanitize_ok [of c] by (auto simp: moves_def config_ok_def split: if_splits)
  ultimately show ?thesis using assms(1,2,8) by (simp add: cb_sys_inv_def install_def)
qed

lemma cb_sys_inv_install_op:
  assumes "cb_sys_inv c s" "cb_wf b" "config b = config (brk s)"
    and "moves (brk s) b (halfOpenRequests (brk s))"
  shows "cb_sys_inv c (install b s)"
  using assms by (intro install_inv [of _ _ _ "halfOpenRequests (brk s)"])
    (simp_all add: cb_sys_inv_def probe_inv_def)

lemma moves_self [simp]: "moves b b (halfOpenRequests b)"
  by (simp add: moves_def)

lemma cb_sys_inv_mu: "cb_sys_inv c s \<Longrightarrow> \<not> quiet (sanitize c) \<Longrightarrow> cb_sys_inv c (s\<lparr>mu := True\<rparr>)"
  by (simp add: cb_sys_inv_def probe_inv_def current_probes_def)

text \<open>Issuing a ticket after the breaker has been looked at.\<close>

lemma issue_inv:
  assumes "cb_sys_inv c s" and "\<not> p \<Longrightarrow> b' = brk s"
    and "p \<Longrightarrow> state (brk s) = StateHalfOpen
        \<and> halfOpenRequests (brk s) < MaxHalfOpenRequests (sanitize c)
        \<and> b' = brk s\<lparr>halfOpenRequests := halfOpenRequests (brk s) + 1\<rparr>"
  shows "cb_sys_inv c (s\<lparr>brk := b', pending := add_mset (Ticket p (phase s)) (pending s)\<rparr>)"
  using assms by (cases p) (auto simp: cb_sys_inv_def probe_inv_def current_probes_def)

lemma begin_call_inv:
  assumes inv: "cb_sys_inv c s" and a: "perform (Begin_call cerr) s = Some t"
  shows "cb_sys_inv c t"
proof -
  let ?c = "snd (currentState (clock s) (brk s))"
  have wf: "cb_wf (brk s)" and cfg: "config (brk s) = sanitize c"
    using inv by (simp_all add: cb_sys_inv_def)
  have look: "cb_sys_inv c (install ?c s)"
    by (rule cb_sys_inv_install_op [OF inv]) (simp_all add: currentState_wf wf go_step)
  have brk: "brk (install ?c s) = ?c" by (simp add: install_def)
  obtain r b where rb: "begin_execute (clock s) cerr (brk s) = (r, b)" by fastforce
  show ?thesis
  proof (cases r)
    case (Panics v)
    with rb begin_Panics [of "clock s" cerr "brk s" v b] cb_sys_inv_mu [OF look] a cfg
    show ?thesis by (auto split: if_splits)
  next
    case (Returns adm)
    show ?thesis
    proof (cases adm)
      case (Rejected e)
      have "install (brk s) s = s" by (simp add: install_def)
      with Rejected Returns rb begin_Rejected [of "clock s" cerr "brk s" e b] look inv a
      show ?thesis by (auto split: if_splits)
    next
      case (Admitted p)
      note adm = begin_Admitted [of "clock s" cerr "brk s" p b]
      have "install b s = (install ?c s)\<lparr>brk := b\<rparr>"
        using adm Admitted Returns rb by (auto simp: install_def split: if_splits)
      with Admitted Returns rb a
      have t: "t = (install ?c s)\<lparr>brk := b, pending := add_mset (Ticket p (phase (install ?c s)))
                     (pending (install ?c s))\<rparr>"
        by (auto simp: Let_def split: if_splits)
      show ?thesis
        unfolding t by (rule issue_inv [OF look])
          (use adm Admitted Returns rb cfg brk in \<open>auto split: if_splits\<close>)
    qed
  qed
qed

lemma finish_call_inv:
  assumes inv: "cb_sys_inv c s" and a: "perform (Finish_call tk cerr out) s = Some t"
  shows "cb_sys_inv c t"
proof -
  let ?b = "snd (end_execute (clock s) cerr (t_probe tk) out (brk s))"
  let ?h = "halfOpenRequests (brk s) - (if t_probe tk then 1 else 0)"
  have in_flight: "tk \<in># pending s" and t: "t = install ?b (retire tk s)"
    using a by (auto split: if_splits)
  have wf: "cb_wf (brk s)" and cfg: "config (brk s) = sanitize c" and pinv: "probe_inv s"
    using inv by (simp_all add: cb_sys_inv_def)
  have brk: "brk (retire tk s) = brk s" "mu (retire tk s) = mu s" by (simp_all add: retire_def)
  have "config ?b = config (brk s)"
    by (auto simp: end_execute_def Let_def split: outcome.split option.split)
  then show ?thesis
    unfolding t
    using retire_accounting [OF pinv in_flight] inv
    by (intro install_inv [of _ _ _ ?h]) (auto simp: brk cfg wf end_execute_wf go_step cb_sys_inv_def)
qed

lemma cb_step_inv:
  assumes "cb_step s t" "cb_sys_inv c s"
  shows "cb_sys_inv c t"
  using assms(1)
proof cases
  case (cb_stepI a)
  have wf: "cb_wf (brk s)" using assms(2) by (simp add: cb_sys_inv_def)
  show ?thesis
  proof (cases a)
    case (Pass_time d)
    with assms(2) cb_stepI show ?thesis
      by (auto simp: cb_sys_inv_def probe_inv_def current_probes_def split: if_splits)
  next
    case (Begin_call e)
    with assms(2) cb_stepI show ?thesis using begin_call_inv by blast
  next
    case (Finish_call tk e out)
    with assms(2) cb_stepI show ?thesis using finish_call_inv by blast
  next
    case Read_state
    moreover have "cb_sys_inv c (install (snd (Breaker_State (clock s) (brk s))) s)"
      by (rule cb_sys_inv_install_op [OF assms(2)])
         (simp_all add: Breaker_State_def currentState_wf wf go_step)
    ultimately show ?thesis using cb_stepI by (auto split: if_splits)
  next
    case Reset_breaker
    moreover have "cb_sys_inv c (install (snd (Reset (brk s))) s)"
      by (rule cb_sys_inv_install_op [OF assms(2)])
         (simp_all add: Reset_wf wf, simp add: Reset_def go_step)
    ultimately show ?thesis using cb_stepI by (auto split: if_splits)
  qed
qed

lemma cb_init_inv: "cb_init c s \<Longrightarrow> cb_sys_inv c s"
  using sanitize_ok [of c]
  by (auto simp: cb_init_def cb_sys_inv_def probe_inv_def current_probes_def New_Breaker_def
      config_ok_def intro: New_wf [unfolded New_Breaker_def])

interpretation breaker_sys: inductive_invariant "cb_init c" cb_step "cb_sys_inv c" for c
  by unfold_locales (fact cb_init_inv cb_step_inv)+

section \<open>Schedules\<close>

fun run_acts :: "act list \<Rightarrow> cb_sys \<Rightarrow> cb_sys option" where
  "run_acts [] s = Some s"
| "run_acts (a # as) s = (case perform a s of None \<Rightarrow> None | Some t \<Rightarrow> run_acts as t)"

lemma run_acts_reachable:
  "run_acts as s = Some t \<Longrightarrow> reachable (cb_init c) cb_step s \<Longrightarrow> reachable (cb_init c) cb_step t"
proof (induction as arbitrary: s)
  case (Cons a as)
  then obtain u where "perform a s = Some u" "run_acts as u = Some t"
    by (auto split: option.splits)
  with Cons show ?case by (blast intro: cb_stepI reachable_step)
qed simp

definition fresh_sys :: "cb_config \<Rightarrow> cb_sys" where
  "fresh_sys c = \<lparr>brk = New_Breaker c, clock = 0, mu = False, pending = {#}, phase = 0, stale_done = 0\<rparr>"

lemma fresh_reachable: "reachable (cb_init c) cb_step (fresh_sys c)"
  by (rule reachable_init) (simp add: cb_init_def fresh_sys_def)

text \<open>
  A late probe: with one failure tripping the breaker, one probe slot and a 10 ns timeout, two calls
  start closed; the first fails and opens the breaker, a probe \<open>P\<close> is admitted after the timeout, the
  second call fails and opens it again, a probe \<open>Q\<close> is admitted in the next half-open phase, \<open>P\<close>
  returns, and its decrement frees a slot for a third probe while \<open>Q\<close> is still running.
\<close>

definition one_probe_config :: cb_config where
  "one_probe_config = \<lparr>FailureThreshold = 1, SuccessThreshold = 2, Timeout = 10,
     MaxHalfOpenRequests = 1, OnStateChange = None\<rparr>"

definition late_probe_schedule :: "act list" where
  "late_probe_schedule =
     [Begin_call None, Begin_call None,
      Finish_call (Ticket False 0) None (Returns (Some (Opaque 1))),
      Pass_time 10, Begin_call None,
      Finish_call (Ticket False 0) None (Returns (Some (Opaque 1))),
      Pass_time 10, Begin_call None,
      Finish_call (Ticket True 2) None (Returns None),
      Begin_call None]"

lemma sanitize_one_probe [simp]: "sanitize one_probe_config = one_probe_config"
  by (simp add: one_probe_config_def sanitize_def)

lemmas cb_eval = begin_execute_def end_execute_def cb_ops install_def retire_def

definition late_probe_state :: cb_sys where
  "late_probe_state = \<lparr>brk = \<lparr>config = one_probe_config, state = StateHalfOpen, failureCount = 0,
       successCount = 1, halfOpenRequests = 1, lastFailureTime = 10, notified = []\<rparr>,
     clock = 20, mu = False, pending = {#Ticket True 4, Ticket True 4#}, phase = 4, stale_done = 1\<rparr>"

lemma late_probe_run:
  "run_acts late_probe_schedule (fresh_sys one_probe_config) = Some late_probe_state"
  by (simp add: late_probe_schedule_def fresh_sys_def New_Breaker_def late_probe_state_def
        sanitize_def one_probe_config_def cb_eval eval_nat_numeral del: sanitize_one_probe)

lemma late_probe_reachable: "reachable (cb_init one_probe_config) cb_step late_probe_state"
  by (rule run_acts_reachable [OF late_probe_run fresh_reachable])

text \<open>A callback that panics when the breaker half-opens.\<close>

definition panicking_config :: cb_config where
  "panicking_config = one_probe_config\<lparr>OnStateChange :=
     Some (\<lambda>from t. if t = StateHalfOpen then Panics (PUser 1) else Returns ())\<rparr>"

definition wedge_schedule :: "act list" where
  "wedge_schedule =
     [Begin_call None, Finish_call (Ticket False 0) None (Returns (Some (Opaque 1))),
      Pass_time 10, Begin_call None]"

definition wedged_state :: cb_sys where
  "wedged_state = \<lparr>brk = \<lparr>config = panicking_config, state = StateHalfOpen, failureCount = 0,
       successCount = 0, halfOpenRequests = 0, lastFailureTime = 0,
       notified = [(StateClosed, StateOpen), (StateOpen, StateHalfOpen)]\<rparr>,
     clock = 10, mu = True, pending = {#}, phase = 2, stale_done = 0\<rparr>"

lemma sanitize_panicking [simp]: "sanitize panicking_config = panicking_config"
  by (simp add: panicking_config_def one_probe_config_def sanitize_def)

lemma wedge_run: "run_acts wedge_schedule (fresh_sys panicking_config) = Some wedged_state"
  by (simp add: wedge_schedule_def fresh_sys_def New_Breaker_def wedged_state_def cb_eval)
     (simp add: panicking_config_def one_probe_config_def cb_eval)

section \<open>Admission again\<close>

text \<open>A call with a live context gets in now, or would after some time with nothing else happening.\<close>

definition admits :: "cb_sys \<Rightarrow> bool" where
  "admits s \<longleftrightarrow> (\<exists>t. perform (Begin_call None) s = Some t \<and> size (pending t) = Suc (size (pending s)))"

definition recovers :: "cb_sys \<Rightarrow> bool" where
  "recovers s \<longleftrightarrow> (\<exists>d t. perform (Pass_time d) s = Some t \<and> admits t)"

definition slot_free :: "cb_config \<Rightarrow> cb_sys \<Rightarrow> bool" where
  "slot_free c s \<longleftrightarrow> state (brk s) \<noteq> StateHalfOpen
     \<or> halfOpenRequests (brk s) < MaxHalfOpenRequests (sanitize c)"

lemma install_pending [simp]: "pending (install b s) = pending s"
  by (simp add: install_def)

lemma admitsI:
  "\<not> mu s \<Longrightarrow> fst (begin_execute (clock s) None (brk s)) = Returns (Admitted p) \<Longrightarrow> admits s"
  by (cases "begin_execute (clock s) None (brk s)") (simp add: admits_def Let_def)

lemma recovers_slot:
  assumes inv: "cb_sys_inv c s" and quiet: "quiet (sanitize c)" and slot: "slot_free c s"
  shows "recovers s"
proof -
  let ?d = "max 0 (lastFailureTime (brk s) + Timeout (sanitize c) - clock s)"
  let ?t = "s\<lparr>clock := clock s + ?d\<rparr>"
  have c: "config (brk s) = sanitize c" "\<not> mu s" "0 < MaxHalfOpenRequests (sanitize c)"
    using inv quiet sanitize_ok [of c] by (simp_all add: cb_sys_inv_def config_ok_def)
  have "\<exists>p. fst (begin_execute (clock ?t) None (brk ?t)) = Returns (Admitted p)"
  proof (cases "state (brk s)")
    case StateOpen
    then have "clock ?t - lastFailureTime (brk s) \<ge> Timeout (sanitize c)" by simp
    with StateOpen c quiet show ?thesis
      by (auto simp: begin_execute_def currentState_def transitionTo_def Let_def quiet_callback split: cb_splits)
  qed (use slot c in \<open>auto simp: begin_execute_def currentState_def slot_free_def split: cb_splits\<close>)
  then have "admits ?t" using c(2) by (intro exE [OF _ admitsI]) simp_all
  then show ?thesis unfolding recovers_def by (intro exI [of _ ?d] exI [of _ ?t]) simp
qed

lemma full_slots_probe:
  assumes "cb_sys_inv c s" "\<not> slot_free c s"
  shows "\<exists>tk \<in># pending s. t_probe tk \<and> t_phase tk = phase s"
proof -
  have "0 < current_probes s"
    using assms sanitize_ok [of c] by (simp add: cb_sys_inv_def probe_inv_def slot_free_def config_ok_def)
  then obtain tk where "tk \<in># filter_mset (\<lambda>t. t_probe t \<and> t_phase t = phase s) (pending s)"
    unfolding current_probes_def nonempty_has_size [symmetric] by (blast elim: multiset_nonemptyE)
  then show ?thesis by auto
qed

lemma finish_recovers:
  assumes inv: "cb_sys_inv c s" and quiet: "quiet (sanitize c)" and tk: "tk \<in># pending s" "t_probe tk"
  shows "recovers (install (snd (end_execute (clock s) cerr (t_probe tk) out (brk s))) (retire tk s))"
proof -
  let ?b = "snd (end_execute (clock s) cerr (t_probe tk) out (brk s))"
  have "perform (Finish_call tk cerr out) s = Some (install ?b (retire tk s))"
    using inv quiet tk by (simp add: cb_sys_inv_def)
  then have fin: "cb_sys_inv c (install ?b (retire tk s))" by (rule finish_call_inv [OF inv])
  have "halfOpenRequests (brk s) \<le> MaxHalfOpenRequests (sanitize c)" "0 < MaxHalfOpenRequests (sanitize c)"
    using inv sanitize_ok [of c] by (simp_all add: cb_sys_inv_def config_ok_def)
  moreover have "moves (brk s) ?b (halfOpenRequests (brk s) - 1)"
    using moves_end [of "brk s" "clock s" cerr "t_probe tk" out] tk(2) by simp
  ultimately have "slot_free c (install ?b (retire tk s))"
    by (auto simp: slot_free_def moves_def install_def retire_def split: if_splits)
  with fin quiet show ?thesis by (intro recovers_slot)
qed

section \<open>Properties\<close>

text \<open>
  C18: in every reachable state of the concurrent breaker its counters are in range (failures below
  their threshold when closed and zero elsewhere, successes below theirs when half-open and zero
  elsewhere, so no counter can overflow an int), and the callback has been called along a legal path
  of state changes from closed to the present state, never from closed to half-open.
\<close>

theorem breaker_invariant:
  assumes "reachable (cb_init c) cb_step s"
  shows "counters_ok (brk s)
    \<and> (case OnStateChange (config (brk s)) of
         None \<Rightarrow> notified (brk s) = []
       | Some _ \<Rightarrow> legal_path StateClosed (notified (brk s)) (state (brk s)))"
proof -
  have "cb_wf (brk s)" using breaker_sys.reachable_inv [OF assms] by (simp add: cb_sys_inv_def)
  then show ?thesis by (simp add: cb_wf_def notified_ok_def)
qed

theorem breaker_invariant_witness:
  "counters_ok (brk wedged_state)
   \<and> legal_path StateClosed (notified (brk wedged_state)) (state (brk wedged_state))"
proof -
  have "reachable (cb_init panicking_config) cb_step wedged_state"
    by (rule run_acts_reachable [OF wedge_run fresh_reachable])
  from breaker_invariant [OF this] show ?thesis
    by (simp add: wedged_state_def panicking_config_def)
qed

text \<open>
  C19: the probe slots. The counter is the number of probes in flight of the present half-open phase
  minus the number of late probes of earlier phases that have come back during it; the probes in
  flight therefore never exceed \<open>MaxHalfOpenRequests\<close> by more than those late returns, and in a
  phase with none of them the limit holds exactly. Outside half-open no probe is admitted.
\<close>

theorem half_open_probe_bound:
  assumes "reachable (cb_init c) cb_step s"
  shows "halfOpenRequests (brk s) = int (current_probes s) - int (stale_done s)
    \<and> int (current_probes s) \<le> MaxHalfOpenRequests (sanitize c) + int (stale_done s)
    \<and> (state (brk s) \<noteq> StateHalfOpen \<longrightarrow> current_probes s = 0)"
  using breaker_sys.reachable_inv [OF assms] by (simp add: cb_sys_inv_def probe_inv_def)

theorem half_open_probe_bound_witness:
  "int (current_probes late_probe_state) \<le> 1 + int (stale_done late_probe_state)"
proof -
  have "MaxHalfOpenRequests (sanitize one_probe_config) = 1"
    by simp (simp add: one_probe_config_def)
  with half_open_probe_bound [OF late_probe_reachable] show ?thesis by simp
qed

text \<open>
  C37: the documented limit on concurrent half-open probes is not enforced across phases: there is a
  schedule, with \<open>MaxHalfOpenRequests = 1\<close>, that reaches a half-open breaker with two probes of the
  present phase in flight at once, because a probe left over from an earlier phase gives back a
  slot it no longer holds.
\<close>

theorem half_open_limit_exceeded:
  "\<exists>s. reachable (cb_init one_probe_config) cb_step s \<and> state (brk s) = StateHalfOpen
     \<and> MaxHalfOpenRequests (config (brk s)) = 1 \<and> current_probes s = 2"
proof -
  have "state (brk late_probe_state) = StateHalfOpen
     \<and> MaxHalfOpenRequests (config (brk late_probe_state)) = 1 \<and> current_probes late_probe_state = 2"
    by (simp add: late_probe_state_def current_probes_def one_probe_config_def)
  with late_probe_reachable show ?thesis by blast
qed

text \<open>
  C21: if the callback never panics, the mutex is free between any two steps, whatever calls are in
  flight and however the protected functions end (panics included): every call, state query and
  reset can proceed. And calls can always be admitted again: after some time with no other step a call
  is admitted, unless the breaker is half-open with all its slots taken; then one of the probes in
  flight belongs to the present phase, and however it ends, a call can be admitted after that.
\<close>

theorem breaker_never_wedged:
  assumes "reachable (cb_init c) cb_step s" "quiet (sanitize c)"
  shows "\<not> mu s \<and> perform (Begin_call e) s \<noteq> None \<and> perform Read_state s \<noteq> None
    \<and> perform Reset_breaker s \<noteq> None
    \<and> (\<forall>t \<in># pending s. \<forall>cerr out. perform (Finish_call t cerr out) s \<noteq> None)
    \<and> (recovers s
       \<or> (\<exists>tk \<in># pending s. t_probe tk \<and> t_phase tk = phase s
            \<and> (\<forall>cerr out. \<exists>t. perform (Finish_call tk cerr out) s = Some t \<and> recovers t)))"
proof -
  have inv: "cb_sys_inv c s" by (rule breaker_sys.reachable_inv [OF assms(1)])
  then have free: "\<not> mu s" using assms(2) by (simp add: cb_sys_inv_def)
  then have "perform (Begin_call e) s \<noteq> None"
    by (auto simp: Let_def split: prod.split outcome.split admission.split)
  moreover have "recovers s
       \<or> (\<exists>tk \<in># pending s. t_probe tk \<and> t_phase tk = phase s
            \<and> (\<forall>cerr out. \<exists>t. perform (Finish_call tk cerr out) s = Some t \<and> recovers t))"
  proof (cases "slot_free c s")
    case True
    then show ?thesis using recovers_slot [OF inv assms(2)] by blast
  next
    case False
    with full_slots_probe [OF inv] obtain tk where tk: "tk \<in># pending s" "t_probe tk" "t_phase tk = phase s"
      by blast
    have "\<exists>t. perform (Finish_call tk cerr out) s = Some t \<and> recovers t" for cerr out
      using finish_recovers [OF inv assms(2) tk(1,2)] tk(1) free by simp
    with tk show ?thesis by blast
  qed
  ultimately show ?thesis using free by auto
qed

text \<open>The late-probe state of above has its only slot taken; a panic of a probe frees the breaker.\<close>

lemma late_probe_full: "\<not> recovers late_probe_state"
  by (auto simp: recovers_def admits_def late_probe_state_def begin_execute_def currentState_def
      one_probe_config_def install_def split: if_splits)

theorem breaker_never_wedged_witness:
  "\<not> recovers late_probe_state
   \<and> (\<exists>t. perform (Finish_call (Ticket True 4) None (Panics PNilDeref)) late_probe_state = Some t \<and> recovers t)"
proof -
  have "quiet (sanitize one_probe_config)" by simp (simp add: quiet_def one_probe_config_def)
  note nw = breaker_never_wedged [OF late_probe_reachable this]
  have "tk = Ticket True 4" if "tk \<in># pending late_probe_state" for tk
    using that by (auto simp: late_probe_state_def)
  with nw late_probe_full show ?thesis by blast
qed


end
