(* ===== verification/BreakerStorm.thy ===== *)
theory BreakerStorm
  imports BreakerConc
begin

text \<open>
  Load shedding under concurrency. \<open>BreakerConc\<close> lets any number of calls overlap; here the
  backend behind a closed breaker stops answering, and every call that finishes fails. The calls in
  flight at one time are at most \<open>K\<close>, which is what \<open>async.Map\<close> with concurrency \<open>K\<close> guarantees
  of its callers. The lemmas count the calls admitted before the breaker sheds the rest: the failures
  the threshold asks for, and those that were already in flight when it was reached. At the end are two
  schedules in which a call that outlives the phase it was admitted in misleads the breaker.
\<close>

section \<open>Schedules of an outage\<close>

text \<open>What an outage allows: no successful or aborted call and no \<open>Reset\<close>.\<close>

fun outage_act :: "act \<Rightarrow> bool" where
  "outage_act (Pass_time d) = True"
| "outage_act (Begin_call cerr) = True"
| "outage_act (Finish_call t cerr out) =
     (case out of
        Panics v \<Rightarrow> True
      | Returns None \<Rightarrow> False
      | Returns (Some e) \<Rightarrow> \<not> errors_is e CtxCanceled \<and> \<not> err_is cerr CtxCanceled)"
| "outage_act Read_state = True"
| "outage_act Reset_breaker = False"

fun finishes :: "act \<Rightarrow> nat" where
  "finishes (Finish_call t cerr out) = 1"
| "finishes a = 0"

definition finished :: "act list \<Rightarrow> nat" where
  "finished as = sum_list (map finishes as)"

lemma finished_simps [simp]: "finished [] = 0" "finished (a # as) = finishes a + finished as"
  by (simp_all add: finished_def)

text \<open>At most \<open>K\<close> calls are in flight in every state the schedule goes through.\<close>

fun overlap_within :: "nat \<Rightarrow> act list \<Rightarrow> cb_sys \<Rightarrow> bool" where
  "overlap_within K [] s = (size (pending s) \<le> K)"
| "overlap_within K (a # as) s =
     (size (pending s) \<le> K
      \<and> (case perform a s of None \<Rightarrow> True | Some t \<Rightarrow> overlap_within K as t))"

lemma overlap_within_now: "overlap_within K as s \<Longrightarrow> size (pending s) \<le> K"
  by (cases as) simp_all

lemma clock_kept [simp]: "clock (install b s) = clock s" "clock (retire t s) = clock s"
  "pending (install b s) = pending s" "brk (install b s) = b" "brk (retire t s) = brk s"
  by (simp_all add: install_def retire_def)

lemma perform_clock: "perform a s = Some t \<Longrightarrow> clock s \<le> clock t"
  by (cases a) (auto simp: Let_def split: if_splits prod.splits outcome.splits admission.splits)

lemma run_acts_clock: "run_acts as s = Some t \<Longrightarrow> clock s \<le> clock t"
  by (induction as arbitrary: s) (fastforce split: option.splits dest: perform_clock)+

section \<open>One step of an outage\<close>

text \<open>
  The invariant: after \<open>n\<close> failures since the time \<open>t0\<close>, on top of the count the breaker had then,
  it is closed below its threshold, or open with a last failure no older than \<open>t0\<close>.
\<close>

definition outage_inv :: "cb_config \<Rightarrow> nat \<Rightarrow> int \<Rightarrow> int \<Rightarrow> cb_sys \<Rightarrow> bool" where
  "outage_inv cfg K t0 n s \<longleftrightarrow> config (brk s) = cfg \<and> t0 \<le> clock s
     \<and> (case state (brk s) of
          StateClosed \<Rightarrow> failureCount (brk s) = n \<and> n < FailureThreshold cfg
        | StateOpen \<Rightarrow> t0 \<le> lastFailureTime (brk s) \<and> FailureThreshold cfg \<le> n
            \<and> int (size (pending s)) + n \<le> FailureThreshold cfg + int K - 1
        | StateHalfOpen \<Rightarrow> False)"

text \<open>While the timeout has not passed, looking at the breaker changes nothing.\<close>

lemma outage_look:
  assumes "outage_inv cfg K t0 n s" "clock s < t0 + Timeout cfg"
  shows "currentState (clock s) (brk s) = (Returns (state (brk s)), brk s)"
  using assms by (auto simp: outage_inv_def currentState_def split: cb_state.splits)

lemma outage_begin:
  assumes inv: "outage_inv cfg K t0 n s" and a: "perform (Begin_call cerr) s = Some t"
    and "clock s < t0 + Timeout cfg"
  shows "outage_inv cfg K t0 n t"
  using a inv outage_look [OF inv assms(3)]
  by (auto simp: begin_execute_def outage_inv_def Let_def split: if_splits option.splits cb_state.splits)

lemma outage_failure:
  assumes "outage_act (Finish_call tk cerr out)"
  shows "end_execute now cerr p out b =
    recordFailure now (if p then b\<lparr>halfOpenRequests := halfOpenRequests b - 1\<rparr> else b)"
  using assms by (auto simp: end_execute_def Let_def split: outcome.splits option.splits)

lemma outage_finish:
  assumes inv: "outage_inv cfg K t0 n s" and a: "perform (Finish_call tk cerr out) s = Some t"
    and "outage_act (Finish_call tk cerr out)" and K: "size (pending s) \<le> K"
  shows "outage_inv cfg K t0 (n + 1) t"
proof -
  obtain M where M: "pending s = add_mset tk M"
    using a by (metis multi_member_split option.distinct(1) perform_finish)
  have t: "t = install (snd (end_execute (clock s) cerr (t_probe tk) out (brk s))) (retire tk s)"
    using a by (auto split: if_splits)
  have "pending (retire tk s) = M" by (simp add: retire_def M)
  then show ?thesis
    unfolding t outage_failure [OF assms(3)]
    using inv K M by (cases "state (brk s)")
      (auto simp: outage_inv_def recordFailure_def Let_def snd_transitionTo)
qed

lemma outage_step:
  assumes inv: "outage_inv cfg K t0 n s" and a: "perform a s = Some t" and act: "outage_act a"
    and K: "size (pending s) \<le> K" and now: "clock s < t0 + Timeout cfg"
  shows "outage_inv cfg K t0 (n + int (finishes a)) t"
proof (cases a)
  case (Pass_time d)
  then show ?thesis using inv a
    by (auto simp: outage_inv_def split: if_splits cb_state.splits)
next
  case (Begin_call e)
  then show ?thesis using outage_begin [OF inv _ now] a by simp
next
  case (Finish_call tk e out)
  then show ?thesis using outage_finish [OF inv _ _ K] a act by simp
next
  case Read_state
  then show ?thesis using inv a outage_look [OF inv now]
    by (auto simp: outage_inv_def Breaker_State_def install_def split: if_splits)
next
  case Reset_breaker
  then show ?thesis using act by simp
qed

lemma outage_run:
  "outage_inv cfg K t0 n s \<Longrightarrow> run_acts as s = Some t \<Longrightarrow> list_all outage_act as
   \<Longrightarrow> overlap_within K as s \<Longrightarrow> clock t < t0 + Timeout cfg
   \<Longrightarrow> outage_inv cfg K t0 (n + int (finished as)) t \<and> size (pending t) \<le> K"
proof (induction as arbitrary: s n)
  case Nil
  then show ?case by simp
next
  case (Cons a as)
  then obtain u where u: "perform a s = Some u" "run_acts as u = Some t"
    by (auto split: option.splits)
  have "clock s < t0 + Timeout cfg"
    using Cons.prems(5) run_acts_clock [OF Cons.prems(2)] by simp
  then have "outage_inv cfg K t0 (n + int (finishes a)) u"
    using outage_step [OF Cons.prems(1) u(1)] Cons.prems by simp
  from Cons.IH [OF this u(2)] Cons.prems u show ?case by (simp add: add.assoc)
qed

section \<open>Property\<close>

text \<open>
  C20: an outage under concurrency. From any reachable closed breaker, along any interleaving of at
  most \<open>K\<close> overlapping calls that all fail or panic before the timeout has passed, the breaker opens
  exactly when the failures reach what the threshold has left, and the calls that reach the backend
  (those finished and those still in flight) never exceed that many plus the \<open>K - 1\<close> that may have
  been in flight at the time: from then on every call is refused with \<open>ErrCircuitOpen\<close> until the
  timeout.
\<close>

theorem concurrent_outage_bounded:
  assumes "reachable (cb_init c) cb_step s" "state (brk s) = StateClosed"
    and "run_acts as s = Some t" "list_all outage_act as" "overlap_within K as s"
    and "clock t < clock s + Timeout (sanitize c)"
  defines "left \<equiv> FailureThreshold (sanitize c) - failureCount (brk s)"
  shows "0 < left \<and> int (finished as) + int (size (pending t)) \<le> left + int K - 1
    \<and> (state (brk t) = StateOpen \<longleftrightarrow> left \<le> int (finished as))
    \<and> (state (brk t) \<noteq> StateOpen \<longrightarrow> state (brk t) = StateClosed)
    \<and> (state (brk t) = StateOpen \<longrightarrow>
         begin_execute (clock t) None (brk t) = (Returns (Rejected ErrCircuitOpen), brk t))"
proof -
  have s: "config (brk s) = sanitize c" "counters_ok (brk s)"
    using breaker_sys.reachable_inv [OF assms(1)] by (simp_all add: cb_sys_inv_def cb_wf_def)
  then have "outage_inv (sanitize c) K (clock s) (failureCount (brk s)) s"
    using assms(2) by (simp add: outage_inv_def counters_ok_def)
  from outage_run [OF this assms(3-6)]
  have t: "outage_inv (sanitize c) K (clock s) (failureCount (brk s) + int (finished as)) t"
    and "size (pending t) \<le> K" by simp_all
  moreover have "currentState (clock t) (brk t) = (Returns (state (brk t)), brk t)"
    by (rule outage_look [OF t assms(6)])
  moreover have "0 < left"
    using s assms(2) unfolding left_def by (simp add: counters_ok_def)
  ultimately show ?thesis
    unfolding left_def by (cases "state (brk t)") (auto simp: outage_inv_def begin_execute_def)
qed

text \<open>
  The bound is reached: with a threshold of two and three calls overlapping, four reach the backend.
\<close>

definition two_failures_config :: cb_config where
  "two_failures_config = \<lparr>FailureThreshold = 2, SuccessThreshold = 2, Timeout = 10,
     MaxHalfOpenRequests = 1, OnStateChange = None\<rparr>"

definition outage_schedule :: "act list" where
  "outage_schedule =
     [Begin_call None, Begin_call None, Begin_call None,
      Finish_call (Ticket False 0) None (Returns (Some (Opaque 1))), Pass_time 3, Begin_call None,
      Finish_call (Ticket False 0) None (Panics PNilDeref), Begin_call None]"

lemma outage_schedule_run:
  "\<exists>t. run_acts outage_schedule (fresh_sys two_failures_config) = Some t
     \<and> overlap_within 3 outage_schedule (fresh_sys two_failures_config)
     \<and> size (pending t) = 2 \<and> clock t = 3"
  by (simp add: outage_schedule_def fresh_sys_def New_Breaker_def sanitize_def
        two_failures_config_def cb_eval eval_nat_numeral)

theorem concurrent_outage_bounded_witness:
  "\<exists>t. run_acts outage_schedule (fresh_sys two_failures_config) = Some t
     \<and> state (brk t) = StateOpen
     \<and> int (finished outage_schedule) + int (size (pending t)) = 2 + int 3 - 1
     \<and> begin_execute (clock t) None (brk t) = (Returns (Rejected ErrCircuitOpen), brk t)"
proof -
  let ?c = two_failures_config
  obtain t where t: "run_acts outage_schedule (fresh_sys ?c) = Some t" "size (pending t) = 2"
    "overlap_within 3 outage_schedule (fresh_sys ?c)" "clock t = 3"
    using outage_schedule_run by blast
  have c: "sanitize ?c = ?c" by (simp add: two_failures_config_def sanitize_def)
  have "list_all outage_act outage_schedule" "finished outage_schedule = 2"
    by (simp_all add: outage_schedule_def)
  moreover have "state (brk (fresh_sys ?c)) = StateClosed" "failureCount (brk (fresh_sys ?c)) = 0"
    "clock (fresh_sys ?c) = 0" "Timeout ?c = 10" "FailureThreshold ?c = 2"
    by (simp_all add: fresh_sys_def New_Breaker_def two_failures_config_def)
  ultimately show ?thesis
    using concurrent_outage_bounded [OF fresh_reachable _ t(1) _ t(3)] t(1,2,4) c by auto
qed

section \<open>Calls that outlive their phase\<close>

text \<open>
  What a call admitted while the breaker was closed reports is recorded in whatever phase it finishes.
  Two schedules, each of two calls that overlap, with a threshold of one failure: a late success closes
  a half-open breaker that has never sent a probe, and a late failure of the outage that tripped the
  breaker starts its timeout anew.
\<close>

definition one_failure_config :: cb_config where
  "one_failure_config = \<lparr>FailureThreshold = 1, SuccessThreshold = 1, Timeout = 10,
     MaxHalfOpenRequests = 1, OnStateChange = None\<rparr>"

definition late_success_schedule :: "act list" where
  "late_success_schedule =
     [Begin_call None, Begin_call None,
      Finish_call (Ticket False 0) None (Returns (Some (Opaque 1))), Pass_time 10, Read_state,
      Finish_call (Ticket False 0) None (Returns None)]"

definition late_failure_schedule :: "act list" where
  "late_failure_schedule =
     [Begin_call None, Begin_call None,
      Finish_call (Ticket False 0) None (Returns (Some (Opaque 1))), Pass_time 9,
      Finish_call (Ticket False 0) None (Returns (Some (Opaque 1))), Pass_time 9]"

lemmas late_call_eval = fresh_sys_def New_Breaker_def sanitize_def one_failure_config_def cb_eval
  late_success_schedule_def late_failure_schedule_def

theorem late_success_closes:
  "\<exists>s t. run_acts (butlast late_success_schedule) (fresh_sys one_failure_config) = Some s
     \<and> state (brk s) = StateHalfOpen \<and> current_probes s = 0 \<and> successCount (brk s) = 0
     \<and> run_acts late_success_schedule (fresh_sys one_failure_config) = Some t
     \<and> state (brk t) = StateClosed"
  by (simp add: late_call_eval current_probes_def)

theorem late_failure_prolongs:
  "\<exists>t. run_acts late_failure_schedule (fresh_sys one_failure_config) = Some t
     \<and> clock t = 18 \<and> Timeout (config (brk t)) = 10
     \<and> fst (begin_execute (clock t) None (brk t)) = Returns (Rejected ErrCircuitOpen)"
  by (simp add: late_call_eval)

end
