(* ===== verification/Float64.thy ===== *)
theory Float64
  imports Main
begin

text \<open>
  The part of Go's \<open>float64\<close> that \<open>retry.calculateDelay\<close> uses, exactly: the conversion of an int64 to
  the nearest double (ties to even; 53 significant bits), the product with a power of two (exact: the
  exponent stays far below the range's end), comparison, and the conversion back to int64. All the
  values involved are integers, so a double is represented by the integer it denotes. Converting a
  double outside the int64 range is implementation-defined in Go: its result is the argument \<open>oor\<close>.
\<close>

lemma le_div_pos:
  assumes "0 < b" "a * b \<le> m"
  shows "a \<le> m div (b::int)"
  using zdiv_mono1 [OF assms(2,1)] assms(1) by simp

lemma div_less_pos:
  assumes "0 < b" "m < a * b"
  shows "m div (b::int) < a"
proof (rule ccontr)
  assume "\<not> m div b < a"
  then have "a * b \<le> m div b * b" using assms(1) by (intro mult_right_mono) simp_all
  also have "\<dots> \<le> m" using assms(1) by (simp add: minus_mod_eq_div_mult [symmetric])
  finally show False using assms(2) by simp
qed

section \<open>Rounding an integer to 53 significant bits\<close>

function f64_exp :: "int \<Rightarrow> nat" where
  "f64_exp m = (if m < 2 ^ 53 then 0 else Suc (f64_exp (m div 2)))"
  by pat_completeness auto
termination
  by (relation "measure nat") auto

declare f64_exp.simps [simp del]

definition f64_abs :: "int \<Rightarrow> int" where
  "f64_abs m =
     (let e = f64_exp m; q = m div 2 ^ e; r = m mod 2 ^ e
      in if 2 * r < 2 ^ e \<or> (2 * r = 2 ^ e \<and> even q) then q * 2 ^ e else (q + 1) * 2 ^ e)"

definition f64_of_int64 :: "int \<Rightarrow> int" where
  "f64_of_int64 n = (if n < 0 then - f64_abs (- n) else f64_abs n)"

definition int64_of_f64 :: "(int \<Rightarrow> int) \<Rightarrow> int \<Rightarrow> int" where
  "int64_of_f64 oor x = (if - (2 ^ 63) \<le> x \<and> x < 2 ^ 63 then x else oor x)"

lemma f64_exp_small [simp]: "m < 2 ^ 53 \<Longrightarrow> f64_exp m = 0"
  by (simp add: f64_exp.simps)

lemma f64_abs_exact [simp]: "m < 2 ^ 53 \<Longrightarrow> f64_abs m = m"
  by (simp add: f64_abs_def)

lemma f64_exp_bounds:
  "2 ^ 53 \<le> m \<Longrightarrow> 2 ^ (52 + f64_exp m) \<le> m \<and> m < 2 ^ (53 + f64_exp m)"
proof (induction m rule: f64_exp.induct)
  case (1 m)
  have e: "f64_exp m = Suc (f64_exp (m div 2))" using 1 by (simp add: f64_exp.simps [of m])
  show ?case
  proof (cases "m div 2 < 2 ^ 53")
    case True
    with e 1 show ?thesis by simp
  next
    case False
    with 1 have "2 ^ (52 + f64_exp (m div 2)) \<le> m div 2" "m div 2 < 2 ^ (53 + f64_exp (m div 2))"
      by auto
    moreover have "(2::int) ^ (53 + k) = 2 * 2 ^ (52 + k)" "(2::int) ^ (54 + k) = 2 * 2 ^ (53 + k)"
      if "k = f64_exp (m div 2)" for k
      by (simp_all add: power_add)
    ultimately have "2 ^ (53 + f64_exp (m div 2)) \<le> m" "m < 2 ^ (54 + f64_exp (m div 2))"
      by fastforce+
    with e show ?thesis by simp
  qed
qed

lemma f64_abs_between:
  "m div 2 ^ f64_exp m * 2 ^ f64_exp m \<le> f64_abs m
   \<and> f64_abs m \<le> (m div 2 ^ f64_exp m + 1) * 2 ^ f64_exp m"
  by (simp add: f64_abs_def Let_def)

lemma f64_mantissa:
  assumes "2 ^ 53 \<le> m"
  shows "2 ^ 52 \<le> m div 2 ^ f64_exp m" and "m div 2 ^ f64_exp m + 1 \<le> 2 ^ 53"
proof -
  note b = f64_exp_bounds [OF assms]
  have "2 ^ 52 * 2 ^ f64_exp m \<le> m" using b by (simp add: power_add)
  then show "2 ^ 52 \<le> m div 2 ^ f64_exp m" by (simp add: le_div_pos)
  have "m < 2 ^ 53 * 2 ^ f64_exp m" using b by (simp add: power_add)
  then have "m div 2 ^ f64_exp m < 2 ^ 53" by (simp add: div_less_pos)
  then show "m div 2 ^ f64_exp m + 1 \<le> 2 ^ 53" by simp
qed

section \<open>Monotonicity and exactness\<close>

lemma f64_abs_range:
  assumes "2 ^ 53 \<le> m"
  shows "2 ^ (52 + f64_exp m) \<le> f64_abs m" and "f64_abs m \<le> 2 ^ (53 + f64_exp m)"
proof -
  let ?e = "f64_exp m" and ?q = "m div 2 ^ f64_exp m"
  have "2 ^ 52 * 2 ^ ?e \<le> ?q * 2 ^ ?e" using f64_mantissa(1) [OF assms] by (intro mult_right_mono) simp_all
  then show "2 ^ (52 + ?e) \<le> f64_abs m"
    unfolding power_add using conjunct1 [OF f64_abs_between [of m]] by (rule order_trans)
  have "(?q + 1) * 2 ^ ?e \<le> 2 ^ 53 * 2 ^ ?e" using f64_mantissa(2) [OF assms] by (intro mult_right_mono) simp_all
  with conjunct2 [OF f64_abs_between [of m]] show "f64_abs m \<le> 2 ^ (53 + ?e)"
    unfolding power_add by (rule order_trans)
qed

lemma f64_exp_mono: "m \<le> n \<Longrightarrow> f64_exp m \<le> f64_exp n"
proof (induction m arbitrary: n rule: f64_exp.induct)
  case (1 m)
  show ?case
  proof (cases "m < 2 ^ 53")
    case False
    with "1.prems" have "f64_exp n = Suc (f64_exp (n div 2))" by (simp add: f64_exp.simps [of n])
    moreover have "f64_exp (m div 2) \<le> f64_exp (n div 2)"
      using "1.IH" [OF False, of "n div 2"] "1.prems" by simp
    ultimately show ?thesis using False by (simp add: f64_exp.simps [of m])
  qed simp
qed

lemma f64_abs_mono:
  assumes "m \<le> n"
  shows "f64_abs m \<le> f64_abs n"
proof (cases "f64_exp m = f64_exp n")
  case True
  define e where "e = f64_exp n"
  let ?p = "(2::int) ^ e"
  show ?thesis
  proof (cases "m div ?p = n div ?p")
    case q: True
    then have "m mod ?p \<le> n mod ?p"
      using assms by (simp add: minus_div_mult_eq_mod [symmetric])
    with q True show ?thesis by (auto simp: f64_abs_def Let_def e_def [symmetric])
  next
    case False
    have "m div ?p \<le> n div ?p" using assms by (intro zdiv_mono1) simp_all
    with False have "(m div ?p + 1) * ?p \<le> n div ?p * ?p" by (intro mult_right_mono) simp_all
    with f64_abs_between [of m] f64_abs_between [of n] show ?thesis
      unfolding True e_def by linarith
  qed
next
  case False
  with f64_exp_mono [OF assms] have e: "f64_exp m < f64_exp n" by simp
  then have n: "2 ^ 53 \<le> n" by (metis f64_exp_small not_less_zero not_le_imp_less)
  show ?thesis
  proof (cases "2 ^ 53 \<le> m")
    case True
    have "(2::int) ^ (53 + f64_exp m) \<le> 2 ^ (52 + f64_exp n)"
      using e by (intro power_increasing) simp_all
    with f64_abs_range(2) [OF True] f64_abs_range(1) [OF n] show ?thesis by (blast intro: order_trans)
  next
    case m: False
    have "(2::int) ^ 52 * 2 ^ 1 \<le> 2 ^ 52 * 2 ^ f64_exp n"
      using e by (intro mult_left_mono power_increasing) simp_all
    then have "(2::int) ^ 53 \<le> 2 ^ (52 + f64_exp n)" by (simp add: power_add)
    with f64_abs_range(1) [OF n] m show ?thesis by simp
  qed
qed

lemma f64_exp_double: "2 ^ 52 \<le> m \<Longrightarrow> f64_exp (m * 2) = Suc (f64_exp m)"
  by (simp add: f64_exp.simps [of "m * 2"])

lemma f64_exp_power: "f64_exp (2 ^ (53 + k)) = Suc k"
proof (induction k)
  case 0
  show ?case by (simp add: f64_exp.simps)
next
  case (Suc k)
  have "(2::int) ^ 52 \<le> 2 ^ (53 + k)" by (intro power_increasing) simp_all
  from f64_exp_double [OF this] Suc have "f64_exp (2 ^ (53 + k) * 2) = Suc (Suc k)" by simp
  moreover have "(2::int) ^ (53 + k) * 2 = 2 ^ (53 + Suc k)" by (simp only: add_Suc_right power_Suc2)
  ultimately show ?case by metis
qed

lemma f64_abs_power: "f64_abs (2 ^ (53 + k)) = 2 ^ (53 + k)"
proof -
  have "(2::int) ^ (53 + k) = 2 ^ 52 * 2 ^ Suc k" unfolding power_add [symmetric] by simp
  then have "(2::int) ^ (53 + k) mod 2 ^ Suc k = 0" "(2::int) ^ (53 + k) div 2 ^ Suc k = 2 ^ 52"
    by (metis mod_mult_self2_is_0, metis nonzero_mult_div_cancel_right power_not_zero zero_neq_numeral)
  then show ?thesis
    by (simp only: f64_abs_def f64_exp_power Let_def) (simp add: power_add)
qed

lemma f64_abs_nonneg: "0 \<le> m \<Longrightarrow> 0 \<le> f64_abs m"
  using f64_abs_mono [of 0 m] by simp

lemma f64_of_int64_mono: "m \<le> n \<Longrightarrow> f64_of_int64 m \<le> f64_of_int64 n"
  using f64_abs_mono [of m n] f64_abs_mono [of "- n" "- m"] f64_abs_nonneg [of "- m"] f64_abs_nonneg [of n]
  by (auto simp: f64_of_int64_def)

lemma f64_of_int64_exact [simp]: "\<bar>n\<bar> < 2 ^ 53 \<Longrightarrow> f64_of_int64 n = n"
  by (simp add: f64_of_int64_def)

lemma f64_of_int64_nonneg [simp]: "0 \<le> n \<Longrightarrow> 0 \<le> f64_of_int64 n"
  by (simp add: f64_of_int64_def f64_abs_nonneg)

text \<open>A non-negative int64 converts to at most \<open>2\<^sup>6\<^sup>3\<close>, and the largest ones to exactly that.\<close>

lemma f64_of_int64_le: "n < 2 ^ 63 \<Longrightarrow> f64_of_int64 n \<le> 2 ^ 63"
  using f64_of_int64_mono [of n "2 ^ 63"] f64_abs_power [of 10] by (simp add: f64_of_int64_def)

text \<open>Below \<open>2\<^sup>6\<^sup>3 - 2\<^sup>1\<^sup>0\<close>, one full step of the doubles in that range, the conversion stays below \<open>2\<^sup>6\<^sup>3\<close>.\<close>

lemma f64_of_int64_less:
  assumes "n \<le> 2 ^ 63 - 2 ^ 10"
  shows "f64_of_int64 n < 2 ^ 63"
proof -
  have e: "f64_exp (2 ^ 63 - 2 ^ 10) = 10" by (simp add: f64_exp.simps)
  have "f64_abs (2 ^ 63 - 2 ^ 10) = 2 ^ 63 - 2 ^ 10"
    by (simp only: f64_abs_def e Let_def) simp
  then have "f64_of_int64 (2 ^ 63 - 2 ^ 10) < 2 ^ 63" by (simp add: f64_of_int64_def)
  with f64_of_int64_mono [OF assms] show ?thesis by simp
qed

section \<open>Nearest doubles\<close>

text \<open>
  Scaling by a power of two commutes with rounding, and rounding twice is rounding once; so the product
  of a rounded number with a power of two is the exact product rounded.
\<close>

lemma f64_abs_double:
  assumes "0 \<le> m"
  shows "f64_abs (m * 2) = f64_abs m * 2"
proof (cases "m < 2 ^ 52")
  case False
  then have e: "f64_exp (m * 2) = Suc (f64_exp m)" by (simp add: f64_exp_double)
  have "m * 2 div 2 ^ Suc (f64_exp m) = m div 2 ^ f64_exp m"
    "m * 2 mod 2 ^ Suc (f64_exp m) = m mod 2 ^ f64_exp m * 2"
    by (simp_all add: power_Suc2 mult_mod_left del: power_Suc)
  then show ?thesis by (auto simp: f64_abs_def e Let_def)
qed simp

lemma f64_abs_scale: "0 \<le> m \<Longrightarrow> f64_abs (m * 2 ^ k) = f64_abs m * 2 ^ k"
proof (induction k)
  case (Suc k)
  have "f64_abs (m * 2 ^ k * 2) = f64_abs (m * 2 ^ k) * 2"
    using Suc.prems by (intro f64_abs_double) simp
  with Suc show ?case by (simp add: power_Suc2 mult.assoc [symmetric] del: power_Suc)
qed simp

text \<open>A double is a whole number of at most 53 bits times a power of two.\<close>

definition double_int :: "int \<Rightarrow> bool" where
  "double_int x \<longleftrightarrow> (\<exists>q e. \<bar>q\<bar> \<le> 2 ^ 53 \<and> x = q * 2 ^ e)"

lemma f64_abs_double_int:
  assumes "0 \<le> m"
  shows "double_int (f64_abs m)"
proof (cases "m < 2 ^ 53")
  case True
  then show ?thesis using assms unfolding double_int_def by (intro exI [of _ m] exI [of _ 0]) simp
next
  case False
  then have "2 ^ 52 \<le> m div 2 ^ f64_exp m" "m div 2 ^ f64_exp m + 1 \<le> 2 ^ 53"
    using f64_mantissa [of m] by simp_all
  then show ?thesis unfolding double_int_def f64_abs_def Let_def
    by (cases "2 * (m mod 2 ^ f64_exp m) < 2 ^ f64_exp m \<or> 2 * (m mod 2 ^ f64_exp m) = 2 ^ f64_exp m \<and> even (m div 2 ^ f64_exp m)")
      (intro exI [of _ "m div 2 ^ f64_exp m"] exI [of _ "f64_exp m"], simp,
       intro exI [of _ "m div 2 ^ f64_exp m + 1"] exI [of _ "f64_exp m"], simp)
qed

lemma f64_abs_fixed:
  assumes "double_int x" "0 \<le> x"
  shows "f64_abs x = x"
proof -
  obtain q e where x: "\<bar>q\<bar> \<le> 2 ^ 53" "x = q * 2 ^ e" using assms(1) by (auto simp: double_int_def)
  then have q: "0 \<le> q" "q \<le> 2 ^ 53" using assms(2) by (simp_all add: zero_le_mult_iff)
  have "f64_abs q = q"
  proof (cases "q = 2 ^ 53")
    case True
    with f64_abs_power [of 0] show ?thesis by simp
  qed (use q in simp)
  then show ?thesis by (simp add: x f64_abs_scale q)
qed

lemma f64_abs_idem [simp]: "0 \<le> m \<Longrightarrow> f64_abs (f64_abs m) = f64_abs m"
  by (simp add: f64_abs_fixed f64_abs_double_int f64_abs_nonneg)

text \<open>Rounding to the nearer of two neighbouring multiples.\<close>

lemma round_to_multiple:
  fixes m q p r :: int
  assumes "m = q * p + r" "0 \<le> r" "r < p"
    and "x = (if 2 * r < p \<or> (2 * r = p \<and> even q) then q * p else (q + 1) * p)"
  shows "2 * \<bar>x - m\<bar> \<le> p" and "q * p \<le> m" and "m < (q + 1) * p"
    and "y \<le> q * p \<or> (q + 1) * p \<le> y \<Longrightarrow> \<bar>x - m\<bar> \<le> \<bar>y - m\<bar>"
proof -
  have q1: "(q + 1) * p = q * p + p" by (simp add: distrib_right)
  show "2 * \<bar>x - m\<bar> \<le> p" "q * p \<le> m" "m < (q + 1) * p"
    using assms unfolding q1 by (auto split: if_splits)
  show "\<bar>x - m\<bar> \<le> \<bar>y - m\<bar>" if "y \<le> q * p \<or> (q + 1) * p \<le> y"
    using assms that unfolding q1 by (auto split: if_splits)
qed

lemma f64_abs_rounds:
  defines "p m \<equiv> 2 ^ f64_exp m"
  shows "2 * \<bar>f64_abs m - m\<bar> \<le> p m" and "m div p m * p m \<le> m" and "m < (m div p m + 1) * p m"
    and "y \<le> m div p m * p m \<or> (m div p m + 1) * p m \<le> y \<Longrightarrow> \<bar>f64_abs m - m\<bar> \<le> \<bar>y - m\<bar>"
proof -
  have "m = m div p m * p m + m mod p m" by (rule div_mult_mod_eq [symmetric])
  moreover have "0 \<le> m mod p m" "m mod p m < p m" by (simp_all add: p_def)
  moreover have "f64_abs m = (if 2 * (m mod p m) < p m \<or> (2 * (m mod p m) = p m \<and> even (m div p m))
      then m div p m * p m else (m div p m + 1) * p m)"
    by (simp only: f64_abs_def p_def Let_def)
  note round_to_multiple [OF calculation this]
  then show "2 * \<bar>f64_abs m - m\<bar> \<le> p m" "m div p m * p m \<le> m" "m < (m div p m + 1) * p m"
    "y \<le> m div p m * p m \<or> (m div p m + 1) * p m \<le> y \<Longrightarrow> \<bar>f64_abs m - m\<bar> \<le> \<bar>y - m\<bar>" by blast+
qed

text \<open>The rounded number is off by at most half a unit in its last place.\<close>

lemma f64_abs_error:
  assumes "0 \<le> m"
  shows "2 ^ 53 * \<bar>f64_abs m - m\<bar> \<le> m"
proof (cases "m < 2 ^ 53")
  case False
  let ?p = "(2::int) ^ f64_exp m"
  have "2 * \<bar>f64_abs m - m\<bar> \<le> ?p" by (rule f64_abs_rounds)
  then have "2 ^ 52 * (2 * \<bar>f64_abs m - m\<bar>) \<le> 2 ^ 52 * ?p" by (intro mult_left_mono) simp_all
  also have "\<dots> \<le> m" using f64_exp_bounds [of m] False by (simp add: power_add)
  finally show ?thesis by simp
qed (use assms in simp)

text \<open>No double is nearer.\<close>

lemma f64_abs_nearest:
  assumes "0 \<le> m" "double_int y" "0 \<le> y"
  shows "\<bar>f64_abs m - m\<bar> \<le> \<bar>y - m\<bar>"
proof (cases "m < 2 ^ 53")
  case False
  let ?p = "(2::int) ^ f64_exp m" and ?q = "m div 2 ^ f64_exp m"
  have q: "2 ^ 52 \<le> ?q" "?q + 1 \<le> 2 ^ 53" using f64_mantissa [of m] False by simp_all
  have "y \<le> ?q * ?p \<or> (?q + 1) * ?p \<le> y"
  proof (rule ccontr)
    assume "\<not> ?thesis"
    then have a: "?q * ?p < y" "y < (?q + 1) * ?p" by simp_all
    obtain z e where z: "\<bar>z\<bar> \<le> 2 ^ 53" "y = z * 2 ^ e" using assms(2) by (auto simp: double_int_def)
    have "0 < y" using a(1) q by (meson le_less_trans mult_nonneg_nonneg order_trans zero_le_numeral zero_le_power)
    then have z0: "0 < z" using z(2) by (simp add: zero_less_mult_iff)
    show False
    proof (cases "f64_exp m \<le> e")
      case True
      then have "y = z * 2 ^ (e - f64_exp m) * ?p" unfolding z(2) by (simp add: power_add [symmetric] mult.assoc)
      with a show False by (simp add: mult_less_cancel_right)
    next
      case False
      then obtain k where k: "f64_exp m = e + Suc k" using less_imp_Suc_add [of e "f64_exp m"] by auto
      have "?q * ?p < z * 2 ^ e" using a(1) z(2) by simp
      then have "?q * 2 ^ Suc k * 2 ^ e < z * 2 ^ e" unfolding k by (simp add: power_add algebra_simps)
      then have "?q * 2 ^ Suc k < z" by (simp add: mult_less_cancel_right)
      moreover have "2 ^ 52 * 2 ^ 1 \<le> ?q * 2 ^ Suc k"
        using q(1) by (intro mult_mono power_increasing) simp_all
      ultimately have "2 ^ 52 * 2 ^ 1 < z" by (rule le_less_trans [rotated])
      then show False using z(1) by simp
    qed
  qed
  then show ?thesis by (rule f64_abs_rounds)
qed (use assms in simp)

end
