(* ===== verification/Retry.thy ===== *)
theory Retry
  imports Prelude Float64
begin

text \<open>
  \<open>retry/retry.go\<close>: configuration and options, the backoff arithmetic of \<open>calculateDelay\<close> (with the
  double-precision steps of \<^theory_text>\<open>Float64\<close>), and the two retry loops. A loop runs in an environment that
  says when its context is done, what the supervised function does, which branch of \<open>select\<close> wins when
  both are ready, and what the random source draws. The function is a closure: from the attempt, the
  time it starts and the state it captures it yields its outcome, how long it runs and the state
  after. The result of a loop carries the trace of the calls and sleeps, the time at the end and the
  closure's state.
\<close>

section \<open>Configuration and options\<close>

datatype strategy = StrategyConstant | StrategyExponential | StrategyOther int

record rt_config =
  MaxAttempts :: int
  InitialDelay :: int
  MaxDelay :: int
  Strategy :: strategy
  Jitter :: bool
  RetryIf :: "(gerror \<Rightarrow> bool) option"

definition millisecond :: int where "millisecond = 1000000"

definition defaultConfig :: rt_config where
  "defaultConfig = \<lparr>MaxAttempts = 3, InitialDelay = 100 * millisecond,
     MaxDelay = 10 * (1000 * millisecond), Strategy = StrategyExponential, Jitter = True,
     RetryIf = Some (\<lambda>_. True)\<rparr>"

definition WithMaxAttempts :: "int \<Rightarrow> rt_config \<Rightarrow> rt_config" where
  "WithMaxAttempts n c = (if n > 0 then c\<lparr>MaxAttempts := n\<rparr> else c)"

definition WithInitialDelay :: "int \<Rightarrow> rt_config \<Rightarrow> rt_config" where
  "WithInitialDelay d c = c\<lparr>InitialDelay := d\<rparr>"

definition WithMaxDelay :: "int \<Rightarrow> rt_config \<Rightarrow> rt_config" where
  "WithMaxDelay d c = c\<lparr>MaxDelay := d\<rparr>"

definition WithStrategy :: "strategy \<Rightarrow> rt_config \<Rightarrow> rt_config" where
  "WithStrategy s c = c\<lparr>Strategy := s\<rparr>"

definition WithJitter :: "bool \<Rightarrow> rt_config \<Rightarrow> rt_config" where
  "WithJitter e c = c\<lparr>Jitter := e\<rparr>"

definition WithRetryIf :: "(gerror \<Rightarrow> bool) option \<Rightarrow> rt_config \<Rightarrow> rt_config" where
  "WithRetryIf fn c = c\<lparr>RetryIf := fn\<rparr>"

definition ErrMaxAttemptsReached :: gerror where
  "ErrMaxAttemptsReached = Sentinel ''retry: max attempts reached''"

section \<open>The backoff delay\<close>

text \<open>
  \<open>oor\<close> is the implementation-defined conversion of an out-of-range double to int64; \<open>draw n\<close> is
  \<open>rand.Int(randReader, n)\<close>: a number below \<open>n\<close>, or \<open>None\<close> when the reader fails.
\<close>

definition backoff :: "(int \<Rightarrow> int) \<Rightarrow> rt_config \<Rightarrow> nat \<Rightarrow> int" where
  "backoff oor cfg attempt =
     (case Strategy cfg of
        StrategyConstant \<Rightarrow> InitialDelay cfg
      | StrategyExponential \<Rightarrow>
          (let safeAttempt = (if attempt > 62 then 62 else attempt);
               calc = f64_of_int64 (InitialDelay cfg) * 2 ^ safeAttempt
           in if calc > f64_of_int64 (MaxDelay cfg) then MaxDelay cfg else int64_of_f64 oor calc)
      | StrategyOther _ \<Rightarrow> InitialDelay cfg)"

definition calculateDelay ::
    "(int \<Rightarrow> int) \<Rightarrow> (int \<Rightarrow> int option) \<Rightarrow> rt_config \<Rightarrow> nat \<Rightarrow> int" where
  "calculateDelay oor draw cfg attempt =
     (let delay = backoff oor cfg attempt;
          delay = (if delay > MaxDelay cfg then MaxDelay cfg else delay)
      in if Jitter cfg \<and> delay > 0
         then (case draw delay of None \<Rightarrow> delay | Some j \<Rightarrow> j)
         else delay)"

section \<open>The loops\<close>

record ('s, 'r) rt_env =
  rt_ctx :: context_t
  fn_call :: "nat \<Rightarrow> int \<Rightarrow> 's \<Rightarrow> 'r outcome \<times> nat \<times> 's"
  ctx_wins :: "nat \<Rightarrow> bool"                  \<comment> \<open>\<open>select\<close> with both cases ready\<close>
  rt_draw :: "nat \<Rightarrow> int \<Rightarrow> int option"
  rt_oor :: "int \<Rightarrow> int"

datatype rt_event = Called int | Slept int int int   \<comment> \<open>start, delay, end\<close>

text \<open>
  \<open>select\<close> on the context and a timer of \<open>delay\<close>: the first to be ready wins, \<open>tie\<close> decides when
  they are ready at the same time. A timer that is not positive fires at once.
\<close>

definition wait_backoff :: "context_t \<Rightarrow> bool \<Rightarrow> int \<Rightarrow> int \<Rightarrow> gerror option \<times> int" where
  "wait_backoff ctx tie now delay =
     (let fire = now + max 0 delay
      in case done_at ctx of
           None \<Rightarrow> (None, fire)
         | Some d \<Rightarrow>
             (let ready = max now d
              in if ready < fire \<or> (ready = fire \<and> tie) then (Some (cause ctx), ready)
                 else (None, fire)))"

type_synonym ('s, 'r) rt_run = "'r outcome \<times> rt_event list \<times> int \<times> 's"

definition after_events :: "rt_event list \<Rightarrow> ('s, 'r) rt_run \<Rightarrow> ('s, 'r) rt_run" where
  "after_events es r = (case r of (out, tr, t, s) \<Rightarrow> (out, es @ tr, t, s))"

function do_loop ::
    "('s, gerror option) rt_env \<Rightarrow> rt_config \<Rightarrow> nat \<Rightarrow> int \<Rightarrow> gerror option \<Rightarrow> 's
     \<Rightarrow> ('s, gerror option) rt_run" where
  "do_loop E cfg attempt now lastErr s =
     (if int attempt < MaxAttempts cfg then
        (case ctx_err (rt_ctx E) now of
           Some e \<Rightarrow> (Returns (Some e), [], now, s)
         | None \<Rightarrow>
             (case fn_call E attempt now s of (res, dur, s') \<Rightarrow>
                let t = now + int dur
                in case res of
                     Panics v \<Rightarrow> (Panics v, [Called now], t, s')
                   | Returns None \<Rightarrow> (Returns None, [Called now], t, s')
                   | Returns (Some e) \<Rightarrow>
                       (case RetryIf cfg of
                          None \<Rightarrow> (Panics PNilDeref, [Called now], t, s')
                        | Some retryable \<Rightarrow>
                            if \<not> retryable e then (Returns (Some e), [Called now], t, s')
                            else if int attempt < MaxAttempts cfg - 1 then
                              (let d = calculateDelay (rt_oor E) (rt_draw E attempt) cfg attempt
                               in case wait_backoff (rt_ctx E) (ctx_wins E attempt) t d of
                                    (Some c, u) \<Rightarrow> (Returns (Some c), [Called now, Slept t d u], u, s')
                                  | (None, u) \<Rightarrow>
                                      after_events [Called now, Slept t d u]
                                        (do_loop E cfg (Suc attempt) u (Some e) s'))
                            else after_events [Called now] (do_loop E cfg (Suc attempt) t (Some e) s'))))
      else (Returns (errors_join [Some ErrMaxAttemptsReached, lastErr]), [], now, s))"
  by pat_completeness auto
termination
  by (relation "measure (\<lambda>(E, cfg, attempt, now, lastErr, s). nat (MaxAttempts cfg - int attempt))") auto

declare do_loop.simps [simp del]

definition doWithConfig ::
    "('s, gerror option) rt_env \<Rightarrow> int \<Rightarrow> rt_config \<Rightarrow> 's \<Rightarrow> ('s, gerror option) rt_run" where
  "doWithConfig E now cfg s = do_loop E cfg 0 now None s"

definition Do ::
    "('s, gerror option) rt_env \<Rightarrow> int \<Rightarrow> (rt_config \<Rightarrow> rt_config) option list \<Rightarrow> 's
     \<Rightarrow> ('s, gerror option) rt_run" where
  "Do E now opts s =
     (if length opts = 0 then doWithConfig E now defaultConfig s
      else doWithConfig E now (apply_options opts defaultConfig) s)"

function do_value_loop ::
    "'v \<Rightarrow> ('s, 'v \<times> gerror option) rt_env \<Rightarrow> rt_config \<Rightarrow> nat \<Rightarrow> int \<Rightarrow> gerror option \<Rightarrow> 's
     \<Rightarrow> ('s, 'v \<times> gerror option) rt_run" where
  "do_value_loop zero E cfg attempt now lastErr s =
     (if int attempt < MaxAttempts cfg then
        (case ctx_err (rt_ctx E) now of
           Some e \<Rightarrow> (Returns (zero, Some e), [], now, s)
         | None \<Rightarrow>
             (case fn_call E attempt now s of (res, dur, s') \<Rightarrow>
                let t = now + int dur
                in case res of
                     Panics v \<Rightarrow> (Panics v, [Called now], t, s')
                   | Returns (val, None) \<Rightarrow> (Returns (val, None), [Called now], t, s')
                   | Returns (val, Some e) \<Rightarrow>
                       (case RetryIf cfg of
                          None \<Rightarrow> (Panics PNilDeref, [Called now], t, s')
                        | Some retryable \<Rightarrow>
                            if \<not> retryable e then (Returns (zero, Some e), [Called now], t, s')
                            else if int attempt < MaxAttempts cfg - 1 then
                              (let d = calculateDelay (rt_oor E) (rt_draw E attempt) cfg attempt
                               in case wait_backoff (rt_ctx E) (ctx_wins E attempt) t d of
                                    (Some c, u) \<Rightarrow>
                                      (Returns (zero, Some c), [Called now, Slept t d u], u, s')
                                  | (None, u) \<Rightarrow>
                                      after_events [Called now, Slept t d u]
                                        (do_value_loop zero E cfg (Suc attempt) u (Some e) s'))
                            else after_events [Called now]
                                   (do_value_loop zero E cfg (Suc attempt) t (Some e) s'))))
      else (Returns (zero, errors_join [Some ErrMaxAttemptsReached, lastErr]), [], now, s))"
  by pat_completeness auto
termination
  by (relation "measure (\<lambda>(z, E, cfg, attempt, now, lastErr, s). nat (MaxAttempts cfg - int attempt))") auto

declare do_value_loop.simps [simp del]

definition doWithValueWithConfig ::
    "'v \<Rightarrow> ('s, 'v \<times> gerror option) rt_env \<Rightarrow> int \<Rightarrow> rt_config \<Rightarrow> 's
     \<Rightarrow> ('s, 'v \<times> gerror option) rt_run" where
  "doWithValueWithConfig zero E now cfg s = do_value_loop zero E cfg 0 now None s"

definition DoWithValue ::
    "'v \<Rightarrow> ('s, 'v \<times> gerror option) rt_env \<Rightarrow> int \<Rightarrow> (rt_config \<Rightarrow> rt_config) option list \<Rightarrow> 's
     \<Rightarrow> ('s, 'v \<times> gerror option) rt_run" where
  "DoWithValue zero E now opts s =
     (if length opts = 0 then doWithValueWithConfig zero E now defaultConfig s
      else doWithValueWithConfig zero E now (apply_options opts defaultConfig) s)"

end
