(* ===== verification/RetrySpec.thy ===== *)
theory RetrySpec
  imports Retry
begin

text \<open>
  Properties of \<open>retry\<close>: the delay's bounds, its exact value and its growth; the loop against the
  specification that reads the list of the attempts' results; the trace of calls and sleeps; the
  treatment of the context; \<open>DoWithValue\<close> against \<open>Do\<close>; the options.
\<close>

section \<open>Delays\<close>

text \<open>The documented range of \<open>rand.Int\<close>.\<close>

definition draw_in_range :: "(int \<Rightarrow> int option) \<Rightarrow> bool" where
  "draw_in_range draw \<longleftrightarrow> (\<forall>n j. draw n = Some j \<longrightarrow> 0 < n \<longrightarrow> 0 \<le> j \<and> j < n)"

text \<open>Delays that are int64 values, the bound away from the last step below \<open>2\<^sup>6\<^sup>3\<close>.\<close>

definition delays_ok :: "rt_config \<Rightarrow> bool" where
  "delays_ok cfg \<longleftrightarrow> 0 \<le> InitialDelay cfg \<and> InitialDelay cfg < 2 ^ 63
     \<and> 0 \<le> MaxDelay cfg \<and> MaxDelay cfg \<le> 2 ^ 63 - 2 ^ 10"

definition capped :: "nat \<Rightarrow> nat" where
  "capped attempt = (if attempt > 62 then 62 else attempt)"

text \<open>Where nothing overflows, the conversion back to int64 is the identity.\<close>

lemma backoff_in_range:
  assumes "delays_ok cfg"
  shows "backoff oor cfg attempt =
    (if Strategy cfg = StrategyExponential
     then (let calc = f64_of_int64 (InitialDelay cfg) * 2 ^ capped attempt
           in if calc > f64_of_int64 (MaxDelay cfg) then MaxDelay cfg else calc)
     else InitialDelay cfg)"
proof -
  have "f64_of_int64 (MaxDelay cfg) < 2 ^ 63"
    using assms by (intro f64_of_int64_less) (simp add: delays_ok_def)
  moreover have "0 \<le> f64_of_int64 (InitialDelay cfg) * 2 ^ capped attempt"
    using assms by (simp add: delays_ok_def)
  ultimately show ?thesis
    by (auto simp: backoff_def capped_def Let_def int64_of_f64_def split: strategy.split)
qed

lemma backoff_nonneg: "delays_ok cfg \<Longrightarrow> 0 \<le> backoff oor cfg attempt"
  by (simp add: backoff_in_range Let_def) (simp add: delays_ok_def)

lemma calculateDelay_le_max:
  assumes "draw_in_range draw"
  shows "calculateDelay oor draw cfg attempt \<le> MaxDelay cfg"
  using assms
  by (force simp: calculateDelay_def Let_def draw_in_range_def split: option.split)

lemma calculateDelay_nonneg:
  assumes "draw_in_range draw" "delays_ok cfg"
  shows "0 \<le> calculateDelay oor draw cfg attempt"
proof -
  have "0 \<le> MaxDelay cfg" using assms(2) by (simp add: delays_ok_def)
  with assms(1) backoff_nonneg [OF assms(2), of oor attempt] show ?thesis
    by (auto simp: calculateDelay_def Let_def draw_in_range_def split: option.split)
qed

lemma calculateDelay_no_jitter:
  "\<not> Jitter cfg \<Longrightarrow> calculateDelay oor draw cfg attempt = min (backoff oor cfg attempt) (MaxDelay cfg)"
  by (simp add: calculateDelay_def Let_def min_def)

lemma capped_mono: "i \<le> j \<Longrightarrow> capped i \<le> capped j"
  by (simp add: capped_def)

lemma calculateDelay_mono:
  assumes "delays_ok cfg" "\<not> Jitter cfg" "i \<le> j"
  shows "calculateDelay oor draw cfg i \<le> calculateDelay oor draw cfg j"
proof -
  let ?I = "f64_of_int64 (InitialDelay cfg)"
  have "?I * 2 ^ capped i \<le> ?I * 2 ^ capped j"
    using assms(1) capped_mono [OF assms(3)]
    by (intro mult_left_mono power_increasing) (simp_all add: delays_ok_def)
  then show ?thesis
    by (auto simp: calculateDelay_no_jitter assms(2) backoff_in_range [OF assms(1)] Let_def)
qed

section \<open>The loop's specification\<close>

text \<open>The results of the attempts in order, read until one decides.\<close>

fun retry_spec ::
    "(gerror \<Rightarrow> bool) \<Rightarrow> gerror option \<Rightarrow> gerror option outcome list \<Rightarrow> gerror option outcome" where
  "retry_spec retryable lastErr [] = Returns (errors_join [Some ErrMaxAttemptsReached, lastErr])"
| "retry_spec retryable lastErr (Panics v # rs) = Panics v"
| "retry_spec retryable lastErr (Returns None # rs) = Returns None"
| "retry_spec retryable lastErr (Returns (Some e) # rs) =
     (if retryable e then retry_spec retryable (Some e) rs else Returns (Some e))"

lemma fst_after_events [simp]: "fst (after_events es r) = fst r"
  by (simp add: after_events_def split: prod.split)

lemma wait_background: "done_at ctx = None \<Longrightarrow> wait_backoff ctx tie now d = (None, now + max 0 d)"
  by (simp add: wait_backoff_def Let_def)

lemma attempt_induct:
  assumes "\<And>k now lastErr s. (\<And>now lastErr s. int k < MaxAttempts cfg \<Longrightarrow> P (Suc k) now lastErr s)
      \<Longrightarrow> P k now lastErr s"
  shows "P k (now::int) (lastErr::gerror option) s"
proof (induction "nat (MaxAttempts cfg - int k)" arbitrary: k now lastErr s rule: less_induct)
  case less
  show ?case by (rule assms) (rule less, simp)
qed

lemma do_loop_spec:
  assumes "done_at (rt_ctx E) = None" "RetryIf cfg = Some p" "\<And>k t s. fst (fn_call E k t s) = R k"
  shows "fst (do_loop E cfg k now lastErr s) = retry_spec p lastErr (map R [k..<nat (MaxAttempts cfg)])"
proof (induction k now lastErr s rule: attempt_induct [where cfg = cfg])
  case (1 k now lastErr s)
  note unf = do_loop.simps [of E cfg k now lastErr s]
  show ?case
  proof (cases "int k < MaxAttempts cfg")
    case False
    with unf show ?thesis by simp
  next
    case True
    then have upt: "[k..<nat (MaxAttempts cfg)] = k # [Suc k..<nat (MaxAttempts cfg)]"
      by (intro upt_conv_Cons) linarith
    have ctx: "ctx_err (rt_ctx E) now = None" using assms by (simp add: ctx_err_def)
    have last: "\<not> int k < MaxAttempts cfg - 1 \<Longrightarrow> [Suc k..<nat (MaxAttempts cfg)] = []"
      using True by simp
    obtain d s' where "fn_call E k now s = (R k, d, s')" using assms(3) by (metis prod.collapse)
    with True ctx last 1 show ?thesis
      unfolding unf by (auto simp: upt Let_def wait_background assms(1,2) split: outcome.split option.split)
  qed
qed

section \<open>The trace\<close>

fun calls :: "rt_event list \<Rightarrow> int list" where
  "calls [] = []"
| "calls (Called t # tr) = t # calls tr"
| "calls (Slept s d u # tr) = calls tr"

fun sleeps :: "rt_event list \<Rightarrow> (int \<times> int \<times> int) list" where
  "sleeps [] = []"
| "sleeps (Called t # tr) = sleeps tr"
| "sleeps (Slept s d u # tr) = (s, d, u) # sleeps tr"

abbreviation trace_of :: "('s, 'r) rt_run \<Rightarrow> rt_event list" where
  "trace_of r \<equiv> fst (snd r)"

lemma trace_after_events [simp]: "trace_of (after_events es r) = es @ trace_of r"
  by (simp add: after_events_def split: prod.split)

lemma outcome_option_cases:
  obtains v where "r = Panics v" | "r = Returns None" | e where "r = Returns (Some e)"
  by (metis not_None_eq outcome.exhaust)

text \<open>
  One pass through the loop body, as a case rule: every fact about the trace is proved with it once
  per way the body can end.
\<close>

lemma do_loop_cases:
  fixes E cfg k now lastErr s
  defines "t \<equiv> now + int (fst (snd (fn_call E k now s)))"
    and "s' \<equiv> snd (snd (fn_call E k now s))"
    and "d \<equiv> calculateDelay (rt_oor E) (rt_draw E k) cfg k"
  obtains (stop) out tr u where "do_loop E cfg k now lastErr s = (out, tr, u, s)" "tr = []"
  | (called) out u where "do_loop E cfg k now lastErr s = (out, [Called now], u, s')"
      "int k < MaxAttempts cfg" "ctx_err (rt_ctx E) now = None"
  | (cut) out c u where "do_loop E cfg k now lastErr s = (out, [Called now, Slept t d u], u, s')"
      "int k < MaxAttempts cfg - 1" "ctx_err (rt_ctx E) now = None"
      "wait_backoff (rt_ctx E) (ctx_wins E k) t d = (Some c, u)"
  | (again) e u where "do_loop E cfg k now lastErr s =
        after_events [Called now, Slept t d u] (do_loop E cfg (Suc k) u (Some e) s')"
      "int k < MaxAttempts cfg - 1" "ctx_err (rt_ctx E) now = None"
      "wait_backoff (rt_ctx E) (ctx_wins E k) t d = (None, u)"
  | (last) e where "do_loop E cfg k now lastErr s =
        after_events [Called now] (do_loop E cfg (Suc k) t (Some e) s')"
      "int k < MaxAttempts cfg" "\<not> int k < MaxAttempts cfg - 1" "ctx_err (rt_ctx E) now = None"
proof (cases "int k < MaxAttempts cfg \<and> ctx_err (rt_ctx E) now = None")
  case False
  then have "\<exists>out u. do_loop E cfg k now lastErr s = (out, [], u, s)"
    by (subst do_loop.simps) (auto split: option.split)
  then show ?thesis using stop by blast
next
  case True
  note unf = do_loop.simps [of E cfg k now lastErr s]
  obtain res dur where call: "fn_call E k now s = (res, dur, s')" by (metis prod.collapse s'_def)
  then have t: "t = now + int dur" by (simp add: t_def)
  show ?thesis
  proof (cases "fst (fn_call E k now s)" rule: outcome_option_cases)
    case (3 e)
    with call have fn: "fn_call E k now s = (Returns (Some e), dur, s')" by simp
    show ?thesis
    proof (cases "\<exists>p. RetryIf cfg = Some p \<and> p e")
      case False
      then have "do_loop E cfg k now lastErr s =
          (if RetryIf cfg = None then Panics PNilDeref else Returns (Some e), [Called now], t, s')"
        using True fn unf by (auto simp: t split: option.splits)
      then show ?thesis using called True by blast
    next
      case retry: True
      show ?thesis
      proof (cases "int k < MaxAttempts cfg - 1")
        case more: True
        obtain w u where w: "wait_backoff (rt_ctx E) (ctx_wins E k) t d = (w, u)" by fastforce
        show ?thesis
        proof (cases w)
          case None
          then have "do_loop E cfg k now lastErr s =
              after_events [Called now, Slept t d u] (do_loop E cfg (Suc k) u (Some e) s')"
            using True fn retry more w unf by (auto simp: t d_def Let_def)
          then show ?thesis using again more True w None by blast
        next
          case (Some c)
          then have "do_loop E cfg k now lastErr s = (Returns (Some c), [Called now, Slept t d u], u, s')"
            using True fn retry more w unf by (auto simp: t d_def Let_def)
          then show ?thesis using cut more True w Some by blast
        qed
      next
        case no_more: False
        then have "do_loop E cfg k now lastErr s =
            after_events [Called now] (do_loop E cfg (Suc k) t (Some e) s')"
          using True fn retry unf by (auto simp: t Let_def)
        then show ?thesis using last True no_more by blast
      qed
    qed
  qed (use True unf called call in \<open>auto simp: t\<close>)
qed

lemma wait_backoff_end:
  "wait_backoff ctx tie now d = (w, u) \<Longrightarrow>
     now \<le> u \<and> u \<le> now + max 0 d \<and> (\<forall>dn. done_at ctx = Some dn \<longrightarrow> u \<le> max now dn)
     \<and> (\<forall>c. w = Some c \<longrightarrow> ctx_err ctx u = Some c)"
  by (cases "done_at ctx") (auto simp: wait_backoff_def Let_def ctx_err_def max_def split: if_splits)

lemma loop_calls_bound:
  "length (calls (trace_of (do_loop E cfg k now lastErr s))) \<le> nat (MaxAttempts cfg - int k)"
proof (induction k now lastErr s rule: attempt_induct [where cfg = cfg])
  case (1 k now lastErr s)
  show ?case
  proof (cases rule: do_loop_cases [of E cfg k now lastErr s])
    case (again e u)
    with 1 [of u "Some e" "snd (snd (fn_call E k now s))"] show ?thesis by simp
  next
    case (last e)
    with 1 [of "now + int (fst (snd (fn_call E k now s)))" "Some e" "snd (snd (fn_call E k now s))"] show ?thesis by simp
  qed simp_all
qed

lemma loop_sleeps:
  "map (\<lambda>(s, d, u). d) (sleeps (trace_of (do_loop E cfg k now lastErr s))) =
     map (\<lambda>i. calculateDelay (rt_oor E) (rt_draw E i) cfg i)
       [k..<k + length (sleeps (trace_of (do_loop E cfg k now lastErr s)))]"
proof (induction k now lastErr s rule: attempt_induct [where cfg = cfg])
  case (1 k now lastErr s)
  show ?case
  proof (cases rule: do_loop_cases [of E cfg k now lastErr s])
    case (again e u)
    let ?n = "length (sleeps (trace_of (do_loop E cfg (Suc k) u (Some e) (snd (snd (fn_call E k now s))))))"
    have "[k..<k + Suc ?n] = k # [Suc k..<Suc k + ?n]" by (simp add: upt_conv_Cons del: upt_Suc)
    with again 1 [of u "Some e" "snd (snd (fn_call E k now s))"] show ?thesis by (simp del: upt_Suc)
  next
    case (last e)
    then have "do_loop E cfg (Suc k) (now + int (fst (snd (fn_call E k now s)))) (Some e) (snd (snd (fn_call E k now s))) =
        (Returns (errors_join [Some ErrMaxAttemptsReached, Some e]), [], now + int (fst (snd (fn_call E k now s))),
         snd (snd (fn_call E k now s)))"
      by (subst do_loop.simps) simp
    with last show ?thesis by simp
  qed simp_all
qed

lemma loop_sleeps_less:
  "length (sleeps (trace_of (do_loop E cfg k now lastErr s))) \<le> nat (MaxAttempts cfg - 1 - int k)"
proof (induction k now lastErr s rule: attempt_induct [where cfg = cfg])
  case (1 k now lastErr s)
  show ?case
  proof (cases rule: do_loop_cases [of E cfg k now lastErr s])
    case (again e u)
    with 1 [of u "Some e" "snd (snd (fn_call E k now s))"] show ?thesis by simp
  next
    case (last e)
    with 1 [of "now + int (fst (snd (fn_call E k now s)))" "Some e" "snd (snd (fn_call E k now s))"] show ?thesis by simp
  qed simp_all
qed

lemma loop_context:
  "list_all (\<lambda>t. ctx_err (rt_ctx E) t = None) (calls (trace_of (do_loop E cfg k now lastErr s)))
   \<and> list_all (\<lambda>(s, d, u). s \<le> u \<and> u \<le> s + max 0 d
        \<and> (\<forall>dn. done_at (rt_ctx E) = Some dn \<longrightarrow> u \<le> max s dn))
       (sleeps (trace_of (do_loop E cfg k now lastErr s)))"
proof (induction k now lastErr s rule: attempt_induct [where cfg = cfg])
  case (1 k now lastErr s)
  show ?case
  proof (cases rule: do_loop_cases [of E cfg k now lastErr s])
    case (cut out c u)
    with wait_backoff_end [OF cut(4)] show ?thesis by simp
  next
    case (again e u)
    with 1 [of u "Some e" "snd (snd (fn_call E k now s))"] wait_backoff_end [OF again(4)] show ?thesis by simp
  next
    case (last e)
    with 1 [of "now + int (fst (snd (fn_call E k now s)))" "Some e" "snd (snd (fn_call E k now s))"] show ?thesis by simp
  qed simp_all
qed

section \<open>\<open>DoWithValue\<close> and \<open>Do\<close>\<close>

text \<open>The environment that forgets the values.\<close>

definition forget_values :: "('s, 'v \<times> gerror option) rt_env \<Rightarrow> ('s, gerror option) rt_env" where
  "forget_values E = \<lparr>rt_ctx = rt_ctx E,
     fn_call = (\<lambda>k t s. case fn_call E k t s of (out, d, s') \<Rightarrow> (map_outcome snd out, d, s')),
     ctx_wins = ctx_wins E, rt_draw = rt_draw E, rt_oor = rt_oor E\<rparr>"

lemma forget_values_simps [simp]:
  "rt_ctx (forget_values E) = rt_ctx E"
  "fn_call (forget_values E) k t s = (case fn_call E k t s of (out, d, s') \<Rightarrow> (map_outcome snd out, d, s'))"
  "ctx_wins (forget_values E) = ctx_wins E"
  "rt_draw (forget_values E) = rt_draw E" "rt_oor (forget_values E) = rt_oor E"
  by (simp_all add: forget_values_def)

definition run_snd :: "('s, 'v \<times> gerror option) rt_run \<Rightarrow> ('s, gerror option) rt_run" where
  "run_snd r = (case r of (out, tr, t, s) \<Rightarrow> (map_outcome snd out, tr, t, s))"

lemma run_snd_simps [simp]:
  "run_snd (out, tr, t, s) = (map_outcome snd out, tr, t, s)"
  "run_snd (after_events es r) = after_events es (run_snd r)"
  by (simp_all add: run_snd_def after_events_def split: prod.split)

lemma outcome_value_cases:
  obtains v where "r = Panics v" | x where "r = Returns (x, None)" | x e where "r = Returns (x, Some e)"
  by (metis not_None_eq outcome.exhaust surj_pair)

lemma value_loop_forget:
  "run_snd (do_value_loop zero E cfg k now lastErr s) = do_loop (forget_values E) cfg k now lastErr s"
proof (induction k now lastErr s rule: attempt_induct [where cfg = cfg])
  case (1 k now lastErr s)
  note unf = do_value_loop.simps [of zero E cfg k now lastErr s]
    do_loop.simps [of "forget_values E" cfg k now lastErr s]
  obtain res d s' where call: "fn_call E k now s = (res, d, s')" by (metis prod.collapse)
  show ?case
  proof (cases res rule: outcome_value_cases)
    case (3 x e)
    with 1 call show ?thesis
      unfolding unf by (auto simp: Let_def split: option.split prod.split)
  qed (unfold unf, auto simp: call Let_def split: option.split)
qed

text \<open>
  The environment whose closure assigns its value to a captured variable, the first component of its
  state, and returns its error.
\<close>

definition storing_values :: "('s, 'v \<times> gerror option) rt_env \<Rightarrow> ('v \<times> 's, gerror option) rt_env" where
  "storing_values E = \<lparr>rt_ctx = rt_ctx E,
     fn_call = (\<lambda>k t (x, s). case fn_call E k t s of
        (Returns (y, err), d, s') \<Rightarrow> (Returns err, d, (y, s'))
      | (Panics v, d, s') \<Rightarrow> (Panics v, d, (x, s'))),
     ctx_wins = ctx_wins E, rt_draw = rt_draw E, rt_oor = rt_oor E\<rparr>"

lemma storing_values_simps [simp]:
  "rt_ctx (storing_values E) = rt_ctx E" "ctx_wins (storing_values E) = ctx_wins E"
  "rt_draw (storing_values E) = rt_draw E" "rt_oor (storing_values E) = rt_oor E"
  "fn_call (storing_values E) k t (x, s) = (case fn_call E k t s of
        (Returns (y, err), d, s') \<Rightarrow> (Returns err, d, (y, s'))
      | (Panics v, d, s') \<Rightarrow> (Panics v, d, (x, s')))"
  by (simp_all add: storing_values_def)

definition with_value ::
    "'v \<Rightarrow> ('v \<times> 's, gerror option) rt_run \<Rightarrow> ('s, 'v \<times> gerror option) rt_run" where
  "with_value zero r = (case r of (out, tr, t, x, s) \<Rightarrow>
     (map_outcome (\<lambda>err. (if err = None then x else zero, err)) out, tr, t, s))"

lemma with_value_simps [simp]:
  "with_value zero (out, tr, t, x, s) = (map_outcome (\<lambda>err. (if err = None then x else zero, err)) out, tr, t, s)"
  "with_value zero (after_events es r) = after_events es (with_value zero r)"
  by (simp_all add: with_value_def after_events_def split: prod.split)

lemma errors_join_attempts: "errors_join [Some ErrMaxAttemptsReached, e] \<noteq> None"
  by (cases e) simp_all

lemma value_loop_storing:
  "do_value_loop zero E cfg k now lastErr s = with_value zero (do_loop (storing_values E) cfg k now lastErr (x, s))"
proof (induction k now lastErr s arbitrary: x rule: attempt_induct [where cfg = cfg])
  case (1 k now lastErr s)
  note unf = do_value_loop.simps [of zero E cfg k now lastErr s]
    do_loop.simps [of "storing_values E" cfg k now lastErr "(x, s)"]
  obtain res d s' where call: "fn_call E k now s = (res, d, s')" by (metis prod.collapse)
  show ?case
  proof (cases res rule: outcome_value_cases)
    case (3 y e)
    with 1 [of _ _ _ y] call show ?thesis
      unfolding unf by (auto simp: Let_def errors_join_attempts split: option.split prod.split)
  qed (unfold unf, auto simp: call Let_def errors_join_attempts split: option.split)
qed

text \<open>
  A rule for the loop, by induction over the attempts: \<open>I\<close> holds before each attempt, \<open>Q\<close> of every way
  to end. The last error is part of the invariant.
\<close>

lemma value_loop_rule:
  assumes "RetryIf cfg = Some p"
    and start: "I k now lastErr s"
    and stopped: "\<And>k now l s c. I k now l s \<Longrightarrow> int k < MaxAttempts cfg \<Longrightarrow> ctx_err (rt_ctx E) now = Some c
      \<Longrightarrow> Q (Returns (zero, Some c)) now s"
    and exhausted: "\<And>k now l s. I k now l s \<Longrightarrow> \<not> int k < MaxAttempts cfg
      \<Longrightarrow> Q (Returns (zero, errors_join [Some ErrMaxAttemptsReached, l])) now s"
    and decided: "\<And>k now l s res d s'. I k now l s \<Longrightarrow> int k < MaxAttempts cfg \<Longrightarrow> fn_call E k now s = (res, d, s')
      \<Longrightarrow> \<forall>x e. res \<noteq> Returns (x, Some e) \<Longrightarrow> Q res (now + int d) s'"
    and refused: "\<And>k now l s x e d s'. I k now l s \<Longrightarrow> int k < MaxAttempts cfg
      \<Longrightarrow> fn_call E k now s = (Returns (x, Some e), d, s') \<Longrightarrow> \<not> p e \<Longrightarrow> Q (Returns (zero, Some e)) (now + int d) s'"
    and cut: "\<And>k now l s x e d s' u c. I k now l s \<Longrightarrow> int k < MaxAttempts cfg
      \<Longrightarrow> fn_call E k now s = (Returns (x, Some e), d, s') \<Longrightarrow> now + int d \<le> u \<Longrightarrow> ctx_err (rt_ctx E) u = Some c
      \<Longrightarrow> Q (Returns (zero, Some c)) u s'"
    and again: "\<And>k now l s x e d s' u. I k now l s \<Longrightarrow> int k < MaxAttempts cfg \<Longrightarrow> ctx_err (rt_ctx E) now = None
      \<Longrightarrow> fn_call E k now s = (Returns (x, Some e), d, s') \<Longrightarrow> p e \<Longrightarrow> now + int d \<le> u \<Longrightarrow> I (Suc k) u (Some e) s'"
  shows "\<exists>out tr u s'. do_value_loop zero E cfg k now lastErr s = (out, tr, u, s') \<and> Q out u s'"
  using start
proof (induction k now lastErr s rule: attempt_induct [where cfg = cfg])
  case (1 k now lastErr s)
  note unf = do_value_loop.simps [of zero E cfg k now lastErr s]
  show ?case
  proof (cases "int k < MaxAttempts cfg \<and> ctx_err (rt_ctx E) now = None")
    case False
    with 1(2) exhausted stopped show ?thesis unfolding unf by (auto split: option.split)
  next
    case True
    obtain res d s' where call: "fn_call E k now s = (res, d, s')" by (metis prod.collapse)
    note at = 1(2) True [THEN conjunct1] and live = True [THEN conjunct2]
    have rec: "\<exists>out tr w s2. after_events evs (do_value_loop zero E cfg (Suc k) u (Some e) s') = (out, tr, w, s2) \<and> Q out w s2"
      if "res = Returns (x, Some e)" "p e" "now + int d \<le> u" for x e u evs
      using 1(1) [OF True [THEN conjunct1], of u "Some e" s'] again [OF at live call [unfolded that(1)] that(2,3)]
      by (auto simp: after_events_def split: prod.split)
    show ?thesis
    proof (cases res rule: outcome_value_cases)
      case (3 x e)
      show ?thesis
      proof (cases "p e")
        case False
        with refused [OF at call [unfolded 3]] True call 3 assms(1) show ?thesis unfolding unf by (simp add: Let_def)
      next
        case retry: True
        let ?t = "now + int d" and ?d = "calculateDelay (rt_oor E) (rt_draw E k) cfg k"
        obtain w u where w: "wait_backoff (rt_ctx E) (ctx_wins E k) ?t ?d = (w, u)" by fastforce
        from wait_backoff_end [OF this] have u: "?t \<le> u" "\<And>c. w = Some c \<Longrightarrow> ctx_err (rt_ctx E) u = Some c" by auto
        show ?thesis
          using True call 3 assms(1) retry w cut [OF at call [unfolded 3] u(1)] u(2)
            rec [OF 3 retry, of ?t] rec [OF 3 retry u(1)]
          unfolding unf by (auto simp: Let_def split: option.split)
      qed
    next
      case (1 v)
      with decided [OF at call] True call show ?thesis unfolding unf by (simp add: Let_def)
    next
      case (2 x)
      with decided [OF at call] True call show ?thesis unfolding unf by (simp add: Let_def)
    qed
  qed
qed

section \<open>Options\<close>

text \<open>The options the package hands out.\<close>

inductive retry_option :: "(rt_config \<Rightarrow> rt_config) \<Rightarrow> bool" where
  "retry_option (WithMaxAttempts n)"
| "retry_option (WithInitialDelay d)"
| "retry_option (WithMaxDelay d)"
| "retry_option (WithStrategy s)"
| "retry_option (WithJitter e)"
| "retry_option (WithRetryIf p)"

definition attempts_ok :: "rt_config \<Rightarrow> bool" where
  "attempts_ok c \<longleftrightarrow> 0 < MaxAttempts c"

lemmas retry_options = WithMaxAttempts_def WithInitialDelay_def WithMaxDelay_def WithStrategy_def
  WithJitter_def WithRetryIf_def

interpretation retry_opts: option_api defaultConfig attempts_ok retry_option
  by unfold_locales (auto simp: attempts_ok_def defaultConfig_def retry_options elim: retry_option.cases)

lemma Do_options: "Do E now opts s = doWithConfig E now (apply_options opts defaultConfig) s"
  by (cases opts) (simp_all add: Do_def)

lemma DoWithValue_options:
  "DoWithValue zero E now opts s = doWithValueWithConfig zero E now (apply_options opts defaultConfig) s"
  by (cases opts) (simp_all add: DoWithValue_def)

section \<open>Examples\<close>

text \<open>An attempt list as an environment: attempt \<open>k\<close> takes a microsecond and yields the \<open>k\<close>-th result.\<close>

definition scripted :: "context_t \<Rightarrow> (nat \<Rightarrow> gerror option outcome) \<Rightarrow> (unit, gerror option) rt_env" where
  "scripted ctx R = \<lparr>rt_ctx = ctx, fn_call = (\<lambda>k t s. (R k, 1000, s)),
     ctx_wins = (\<lambda>k. True), rt_draw = (\<lambda>k n. Some (n div 2)), rt_oor = (\<lambda>x. - (2 ^ 63))\<rparr>"

lemma scripted_simps [simp]:
  "rt_ctx (scripted ctx R) = ctx" "fn_call (scripted ctx R) k t s = (R k, 1000, s)"
  "rt_draw (scripted ctx R) k n = Some (n div 2)" "rt_oor (scripted ctx R) x = - (2 ^ 63)"
  by (simp_all add: scripted_def)

lemma background_never_done [simp]: "done_at background = None"
  by (simp add: background_def)

section \<open>Properties\<close>

text \<open>
  C5: with a context that is never done, the retry loop returns what the specification reads off the
  list of the attempts' results: the first success, the first error that is not retryable, the
  first panic, or, when all \<open>MaxAttempts\<close> attempts fail with retryable errors, the join of
  \<open>ErrMaxAttemptsReached\<close> and the last error.
\<close>

theorem do_refines_spec:
  assumes "done_at (rt_ctx E) = None" "RetryIf cfg = Some p" "\<And>k t s. fst (fn_call E k t s) = R k"
  shows "fst (doWithConfig E now cfg s) = retry_spec p None (map R [0..<nat (MaxAttempts cfg)])"
  unfolding doWithConfig_def by (rule do_loop_spec [OF assms])

theorem do_refines_spec_witness:
  "fst (doWithConfig (scripted background (\<lambda>k. if k = 1 then Returns None else Returns (Some (Opaque k)))) 0
          defaultConfig ()) = Returns None"
proof -
  let ?R = "\<lambda>k. if k = 1 then Returns None else Returns (Some (Opaque k))"
  have "done_at (rt_ctx (scripted background ?R)) = None"
    "RetryIf defaultConfig = Some (\<lambda>_. True)"
    "\<And>k t s. fst (fn_call (scripted background ?R) k t s) = ?R k"
    by (simp_all add: defaultConfig_def)
  from do_refines_spec [OF this, of 0 "()"] show ?thesis
    by (simp add: defaultConfig_def upt_rec)
qed

text \<open>
  Exhaustion. When every attempt fails with a retryable error, the result matches
  \<open>ErrMaxAttemptsReached\<close> and the last attempt's error under \<open>errors.Is\<close>; \<open>MaxAttempts\<close> is positive
  for every configuration that options can build, so there always is a last error.
\<close>

theorem do_exhausted:
  assumes "done_at (rt_ctx E) = None" "\<And>f. Some f \<in> set opts \<Longrightarrow> retry_option f"
    and "RetryIf (apply_options opts defaultConfig) = Some p"
    and "\<And>k t s. fst (fn_call E k t s) = Returns (Some (err k))" "\<And>k. p (err k)"
  shows "0 < MaxAttempts (apply_options opts defaultConfig)
    \<and> (\<exists>e. fst (Do E now opts s) = Returns (Some e) \<and> errors_is e ErrMaxAttemptsReached
         \<and> errors_is e (err (nat (MaxAttempts (apply_options opts defaultConfig)) - 1)))"
proof -
  let ?c = "apply_options opts defaultConfig"
  have pos: "0 < MaxAttempts ?c"
    using retry_opts.parsed_valid [of opts] assms(2) by (simp add: attempts_ok_def)
  have spec: "retry_spec p last (map (\<lambda>k. Returns (Some (err k))) ks)
      = (if ks = [] then Returns (errors_join [Some ErrMaxAttemptsReached, last])
         else Returns (Some (Joined [ErrMaxAttemptsReached, err (List.last ks)])))" for last ks
    by (induction ks arbitrary: last) (simp_all add: assms(5))
  have "fst (Do E now opts s) = retry_spec p None (map (\<lambda>k. Returns (Some (err k))) [0..<nat (MaxAttempts ?c)])"
    unfolding Do_options doWithConfig_def
    by (rule do_loop_spec [OF assms(1,3)]) (rule assms(4))
  with pos show ?thesis by (auto simp: spec)
qed

theorem do_exhausted_witness:
  "\<exists>e. fst (Do (scripted background (\<lambda>k. Returns (Some (Opaque k)))) 0 [Some (WithMaxAttempts 2), None] ())
        = Returns (Some e) \<and> errors_is e ErrMaxAttemptsReached \<and> errors_is e (Opaque 1)"
proof -
  let ?E = "scripted background (\<lambda>k. Returns (Some (Opaque k)))"
  let ?o = "[Some (WithMaxAttempts 2), None]"
  have c: "apply_options ?o defaultConfig = WithMaxAttempts 2 defaultConfig" by simp
  have "done_at (rt_ctx ?E) = None"
    "\<And>f. Some f \<in> set ?o \<Longrightarrow> retry_option f"
    "RetryIf (apply_options ?o defaultConfig) = Some (\<lambda>_. True)"
    "\<And>k t s. fst (fn_call ?E k t s) = Returns (Some (Opaque k))" "\<And>k. (\<lambda>_. True) (Opaque k)"
    by (auto intro: retry_option.intros simp: retry_options defaultConfig_def)
  from do_exhausted [OF this, of 0 "()"] show ?thesis unfolding c by (simp add: retry_options)
qed

text \<open>
  The trace of a run. At most \<open>MaxAttempts\<close> calls and one sleep fewer are made, and the \<open>i\<close>-th
  sleep is armed with the backoff delay of attempt \<open>i\<close>.
\<close>

theorem do_trace:
  "length (calls (trace_of (doWithConfig E now cfg s))) \<le> nat (MaxAttempts cfg)
   \<and> length (sleeps (trace_of (doWithConfig E now cfg s))) \<le> nat (MaxAttempts cfg - 1)
   \<and> map (\<lambda>(s, d, u). d) (sleeps (trace_of (doWithConfig E now cfg s))) =
       map (\<lambda>i. calculateDelay (rt_oor E) (rt_draw E i) cfg i)
         [0..<length (sleeps (trace_of (doWithConfig E now cfg s)))]"
  using loop_calls_bound [of E cfg 0 now None s] loop_sleeps_less [of E cfg 0 now None s]
    loop_sleeps [of E cfg 0 now None s]
  by (simp add: doWithConfig_def)

text \<open>
  C28: the loop honours its context: the supervised function is never started once the context is
  done, and a sleep never outlasts it: it ends by the moment the context is done (or at once).
\<close>

theorem do_honours_context:
  "list_all (\<lambda>t. ctx_err (rt_ctx E) t = None) (calls (trace_of (doWithConfig E now cfg s)))
   \<and> list_all (\<lambda>(s, d, u). s \<le> u \<and> u \<le> s + max 0 d
        \<and> (case done_at (rt_ctx E) of None \<Rightarrow> True | Some dn \<Rightarrow> u \<le> max s dn))
       (sleeps (trace_of (doWithConfig E now cfg s)))"
  using loop_context [of E cfg 0 now None s]
  by (auto simp: doWithConfig_def list_all_iff split: option.split)

text \<open>
  C30: \<open>DoWithValue\<close> is \<open>Do\<close> around a closure that leaves its value in a variable the caller captured: the
  same outcome, the same calls and sleeps, the same time at the end and the same final state of the
  closure; the value returned is what the last call left in the variable if the error is nil, and the
  zero value otherwise. Forgetting the values altogether gives the run of \<open>Do\<close> itself.
\<close>

theorem do_with_value_equiv:
  "DoWithValue zero E now opts s =
     (case Do (storing_values E) now opts (zero, s) of (out, tr, t, x, s') \<Rightarrow>
        (map_outcome (\<lambda>err. (if err = None then x else zero, err)) out, tr, t, s'))
   \<and> run_snd (DoWithValue zero E now opts s) = Do (forget_values E) now opts s"
proof
  show "DoWithValue zero E now opts s =
     (case Do (storing_values E) now opts (zero, s) of (out, tr, t, x, s') \<Rightarrow>
        (map_outcome (\<lambda>err. (if err = None then x else zero, err)) out, tr, t, s'))"
    unfolding DoWithValue_options Do_options doWithValueWithConfig_def doWithConfig_def
      value_loop_storing [where x = zero] with_value_def ..
  show "run_snd (DoWithValue zero E now opts s) = Do (forget_values E) now opts s"
    by (simp add: DoWithValue_options Do_options doWithValueWithConfig_def doWithConfig_def value_loop_forget)
qed

text \<open>
  A delay never exceeds \<open>MaxDelay\<close>, whatever the strategy, the attempt and the jitter drawn; and
  for non-negative durations that are not within \<open>2\<^sup>1\<^sup>0\<close> ns of the int64 limit it is never negative
  and, without jitter, never shorter than the delay of an earlier attempt.
\<close>

theorem delay_bounds:
  assumes "draw_in_range draw"
  shows "calculateDelay oor draw cfg attempt \<le> MaxDelay cfg
    \<and> (delays_ok cfg \<longrightarrow> 0 \<le> calculateDelay oor draw cfg attempt)
    \<and> (delays_ok cfg \<and> \<not> Jitter cfg \<and> earlier \<le> attempt \<longrightarrow>
         calculateDelay oor draw cfg earlier \<le> calculateDelay oor draw cfg attempt)"
  using assms calculateDelay_le_max calculateDelay_nonneg calculateDelay_mono by blast

theorem delay_bounds_witness:
  "0 \<le> calculateDelay id (\<lambda>n. Some (n div 2)) defaultConfig 70
   \<and> calculateDelay id (\<lambda>n. Some (n div 2)) defaultConfig 70 \<le> 10 * (1000 * millisecond)"
proof -
  have "draw_in_range (\<lambda>n. Some (n div 2))" by (auto simp: draw_in_range_def)
  moreover have "delays_ok defaultConfig" by (simp add: delays_ok_def defaultConfig_def millisecond_def)
  ultimately show ?thesis
    using delay_bounds [of "\<lambda>n. Some (n div 2)" id defaultConfig 70] by (simp add: defaultConfig_def)
qed

text \<open>
  C29: the exponential backoff computes in \<open>float64\<close>, and what the rounding does is this, for every
  non-negative \<open>InitialDelay\<close> that is an int64 and every non-negative \<open>MaxDelay\<close> that is at least
  \<open>2\<^sup>1\<^sup>0\<close> ns below the int64 limit: without jitter the delay is the double nearest to the exact product
  \<open>InitialDelay \<cdot> 2\<^sup>k\<close>, with \<open>k\<close> the attempt capped at 62, cut at \<open>MaxDelay\<close>. The double is off by at most one part
  in \<open>2\<^sup>5\<^sup>3\<close>, and not at all if \<open>InitialDelay\<close> is below \<open>2\<^sup>5\<^sup>3\<close> ns (104 days).
\<close>

theorem exponential_delay_exact:
  assumes "0 \<le> InitialDelay cfg" "InitialDelay cfg < 2 ^ 63" "0 \<le> MaxDelay cfg" "MaxDelay cfg \<le> 2 ^ 63 - 2 ^ 10"
    and "Strategy cfg = StrategyExponential" "\<not> Jitter cfg"
  shows "let x = InitialDelay cfg * 2 ^ min attempt 62 in
    \<exists>r. calculateDelay oor draw cfg attempt = min r (MaxDelay cfg)
    \<and> double_int r \<and> (\<forall>y. double_int y \<and> 0 \<le> y \<longrightarrow> \<bar>r - x\<bar> \<le> \<bar>y - x\<bar>)
    \<and> 2 ^ 53 * \<bar>r - x\<bar> \<le> x
    \<and> (InitialDelay cfg < 2 ^ 53 \<longrightarrow> r = x)"
proof -
  let ?M = "f64_of_int64 (MaxDelay cfg)"
  define x where "x = InitialDelay cfg * 2 ^ min attempt 62"
  have ok: "delays_ok cfg" using assms by (simp add: delays_ok_def)
  have x0: "0 \<le> x" using assms(1) by (simp add: x_def)
  have r: "f64_of_int64 (InitialDelay cfg) * 2 ^ capped attempt = f64_abs x"
    using assms(1) by (simp add: f64_of_int64_def x_def f64_abs_scale capped_def min_def)
  have M: "?M = f64_abs (MaxDelay cfg)" using assms(3) by (simp add: f64_of_int64_def)
  have cut: "MaxDelay cfg \<le> f64_abs x" if "?M < f64_abs x"
  proof (rule ccontr)
    assume "\<not> ?thesis"
    then have "f64_abs (f64_abs x) \<le> ?M" unfolding M by (intro f64_abs_mono) simp
    with that x0 show False by simp
  qed
  have "calculateDelay oor draw cfg attempt = min (f64_abs x) (MaxDelay cfg)"
    using cut assms(5) by (auto simp: calculateDelay_no_jitter [OF assms(6)] backoff_in_range [OF ok] r Let_def)
  moreover have "InitialDelay cfg < 2 ^ 53 \<longrightarrow> f64_abs x = x"
    using assms(1) by (simp add: x_def f64_abs_scale)
  ultimately show ?thesis
    unfolding Let_def x_def [symmetric]
    using f64_abs_double_int [OF x0] f64_abs_error [OF x0] f64_abs_nearest [OF x0] by blast
qed

text \<open>A delay of \<open>2\<^sup>5\<^sup>4 + 1\<close> ns is not a double; the one computed is the nearest that is.\<close>

theorem exponential_delay_exact_witness:
  "calculateDelay id (\<lambda>_. None) (defaultConfig\<lparr>Jitter := False\<rparr>) 3 = 800 * millisecond
   \<and> \<bar>calculateDelay id (\<lambda>_. None) (defaultConfig\<lparr>Jitter := False, InitialDelay := 2 ^ 54 + 1, MaxDelay := 2 ^ 60\<rparr>) 0
       - (2 ^ 54 + 1)\<bar> = 1"
proof
  let ?c = "defaultConfig\<lparr>Jitter := False\<rparr>"
  have "0 \<le> InitialDelay ?c" "InitialDelay ?c < 2 ^ 63" "0 \<le> MaxDelay ?c" "MaxDelay ?c \<le> 2 ^ 63 - 2 ^ 10"
    "Strategy ?c = StrategyExponential" "\<not> Jitter ?c"
    by (simp_all add: defaultConfig_def millisecond_def)
  from exponential_delay_exact [OF this, where attempt = 3 and oor = id and draw = "\<lambda>_. None"]
  show "calculateDelay id (\<lambda>_. None) ?c 3 = 800 * millisecond"
    by (auto simp: defaultConfig_def millisecond_def)
next
  let ?c = "defaultConfig\<lparr>Jitter := False, InitialDelay := 2 ^ 54 + 1, MaxDelay := 2 ^ 60\<rparr>"
  let ?d = "calculateDelay id (\<lambda>_. None) ?c 0"
  have "0 \<le> InitialDelay ?c" "InitialDelay ?c < 2 ^ 63" "0 \<le> MaxDelay ?c" "MaxDelay ?c \<le> 2 ^ 63 - 2 ^ 10"
    "Strategy ?c = StrategyExponential" "\<not> Jitter ?c"
    by (simp_all add: defaultConfig_def)
  from exponential_delay_exact [OF this, where attempt = 0 and oor = id and draw = "\<lambda>_. None"] obtain r where
    r: "?d = min r (2 ^ 60)" "\<forall>y. double_int y \<and> 0 \<le> y \<longrightarrow> \<bar>r - (2 ^ 54 + 1)\<bar> \<le> \<bar>y - (2 ^ 54 + 1)\<bar>"
    by auto
  have "double_int (2 ^ 54)" unfolding double_int_def by (intro exI [of _ 1] exI [of _ 54]) simp
  with r(2) have "\<bar>r - (2 ^ 54 + 1)\<bar> \<le> 1" by fastforce
  moreover have "?d \<noteq> 2 ^ 54 + 1" by code_simp
  ultimately show "\<bar>?d - (2 ^ 54 + 1)\<bar> = 1" using r(1) by auto
qed

text \<open>
  The cap at attempt 62 does not keep the conversion to \<open>time.Duration\<close> in range, as its comment
  says it does: with \<open>InitialDelay\<close> 2 ns and \<open>MaxDelay\<close> the largest duration, attempt 62 computes
  \<open>2\<^sup>6\<^sup>3\<close>, which is not above \<open>float64(MaxDelay)\<close> (it is equal to it), so the delay is whatever the
  out-of-range conversion yields, a negative duration where that is the least int64.
\<close>

theorem delay_overflow_at_cap:
  assumes "InitialDelay cfg = 2" "MaxDelay cfg = 2 ^ 63 - 1" "Strategy cfg = StrategyExponential"
    and "oor (2 ^ 63) = - (2 ^ 63)"
  shows "calculateDelay oor draw cfg 62 = - (2 ^ 63)"
proof -
  have e: "f64_exp (2 ^ 63 - 1) = 10" by (simp add: f64_exp.simps)
  have "f64_of_int64 (2 ^ 63 - 1) = 2 ^ 63"
    by (simp add: f64_of_int64_def f64_abs_def e [simplified] Let_def)
  then have "backoff oor cfg 62 = oor (2 ^ 63)"
    using assms(1-3) by (simp add: backoff_def int64_of_f64_def)
  with assms(2,4) show ?thesis by (simp add: calculateDelay_def)
qed

theorem delay_overflow_at_cap_witness:
  "calculateDelay (\<lambda>_. - (2 ^ 63)) (\<lambda>_. None)
     (defaultConfig\<lparr>InitialDelay := 2, MaxDelay := 2 ^ 63 - 1\<rparr>) 62 < 0"
  using delay_overflow_at_cap
    [of "defaultConfig\<lparr>InitialDelay := 2, MaxDelay := 2 ^ 63 - 1\<rparr>" "\<lambda>_. - (2 ^ 63)" "\<lambda>_. None"]
  by (simp add: defaultConfig_def)

text \<open>
  Unlike every other option, \<open>WithRetryIf\<close> accepts an unusable argument: with a nil predicate the
  first failing attempt panics with a nil dereference instead of returning its error.
\<close>

theorem nil_retry_predicate_panics:
  assumes "ctx_err (rt_ctx E) now = None" "fst (fn_call E 0 now s) = Returns (Some e)"
  shows "fst (Do E now [Some (WithRetryIf None)] s) = Panics PNilDeref"
  using assms
  by (auto simp: Do_options doWithConfig_def WithRetryIf_def defaultConfig_def do_loop.simps Let_def split: prod.split)

theorem nil_retry_predicate_panics_witness:
  "fst (Do (scripted background (\<lambda>k. Returns (Some (Opaque k)))) 5 [Some (WithRetryIf None)] ())
     = Panics PNilDeref"
proof -
  let ?E = "scripted background (\<lambda>k. Returns (Some (Opaque k)))"
  have "ctx_err (rt_ctx ?E) 5 = None" "fst (fn_call ?E 0 5 ()) = Returns (Some (Opaque 0))" by simp_all
  from nil_retry_predicate_panics [OF this] show ?thesis .
qed

end
