(* ===== verification/CacheSpec.thy ===== *)
theory CacheSpec
  imports Prelude
begin

text \<open>
  \<open>cachekit/cache.go\<close>: the \<open>Cache\<close> interface as a locale. Its operations are functions of the state
  and the clock (contexts that are done stop an operation before it starts and are dealt with in the
  provider), its laws what the interface's comments promise. A client of the interface sees a timed
  map: the specification at the end of the theory, which any sequence of operations refines.
\<close>

datatype ('k, 'v) cache_op =
    OSet 'k 'v int      \<comment> \<open>key, value, expiration (0: none)\<close>
  | OGet 'k
  | ODelete 'k
  | OSweep              \<comment> \<open>the provider's own housekeeping\<close>

text \<open>The specification: a value with the last moment it may be read, \<open>None\<close> for no limit.\<close>

type_synonym ('k, 'v) timed_map = "'k \<Rightarrow> ('v \<times> int option) option"

definition timed_lookup :: "('k, 'v) timed_map \<Rightarrow> int \<Rightarrow> 'k \<Rightarrow> 'v option" where
  "timed_lookup m now k =
     (case m k of
        None \<Rightarrow> None
      | Some (v, None) \<Rightarrow> Some v
      | Some (v, Some until) \<Rightarrow> if now \<le> until then Some v else None)"

fun timed_op :: "int \<times> ('k, 'v) cache_op \<Rightarrow> ('k, 'v) timed_map \<Rightarrow> ('k, 'v) timed_map" where
  "timed_op (t, OSet k v d) m = m(k \<mapsto> (v, if d = 0 then None else Some (t + d)))"
| "timed_op (t, OGet k) m = m"
| "timed_op (t, ODelete k) m = m(k := None)"
| "timed_op (t, OSweep) m = m"

locale cache_api =
  fixes lookup :: "'s \<Rightarrow> int \<Rightarrow> 'k \<Rightarrow> 'v option"
    and set_op :: "int \<Rightarrow> 'k \<Rightarrow> 'v \<Rightarrow> int \<Rightarrow> 's \<Rightarrow> 's"
    and get_op :: "int \<Rightarrow> 'k \<Rightarrow> 's \<Rightarrow> 's"
    and delete_op :: "int \<Rightarrow> 'k \<Rightarrow> 's \<Rightarrow> 's"
    and sweep_op :: "int \<Rightarrow> 's \<Rightarrow> 's"
    and inv :: "'s \<Rightarrow> bool"
    and sane :: "int \<Rightarrow> int \<Rightarrow> bool"    \<comment> \<open>clock readings and durations that can occur\<close>
  assumes set_lookup: "inv s \<Longrightarrow> sane t d \<Longrightarrow> t \<le> now \<Longrightarrow>
      lookup (set_op t k v d s) now =
        (lookup s now)(k := if d = 0 \<or> now \<le> t + d then Some v else None)"
    and get_lookup: "inv s \<Longrightarrow> t \<le> now \<Longrightarrow> lookup (get_op t k s) now = lookup s now"
    and delete_lookup: "inv s \<Longrightarrow> lookup (delete_op t k s) now = (lookup s now)(k := None)"
    and sweep_lookup: "inv s \<Longrightarrow> t \<le> now \<Longrightarrow> lookup (sweep_op t s) now = lookup s now"
    and inv_ops: "inv s \<Longrightarrow> inv (set_op t k v d s)" "inv s \<Longrightarrow> inv (get_op t k s)"
      "inv s \<Longrightarrow> inv (delete_op t k s)" "inv s \<Longrightarrow> inv (sweep_op t s)"
begin

fun run_op :: "int \<times> ('k, 'v) cache_op \<Rightarrow> 's \<Rightarrow> 's" where
  "run_op (t, OSet k v d) s = set_op t k v d s"
| "run_op (t, OGet k) s = get_op t k s"
| "run_op (t, ODelete k) s = delete_op t k s"
| "run_op (t, OSweep) s = sweep_op t s"

fun sane_op :: "int \<times> ('k, 'v) cache_op \<Rightarrow> bool" where
  "sane_op (t, OSet k v d) = sane t d"
| "sane_op _ = True"

definition agrees :: "int \<Rightarrow> 's \<Rightarrow> ('k, 'v) timed_map \<Rightarrow> bool" where
  "agrees t s m \<longleftrightarrow> inv s \<and> (\<forall>now \<ge> t. lookup s now = timed_lookup m now)"

lemma run_op_agrees:
  assumes "agrees t0 s m" "t0 \<le> fst x" "sane_op x"
  shows "agrees (fst x) (run_op x s) (timed_op x m)"
proof -
  obtain t x' where x: "x = (t, x')" by (cases x)
  have inv: "inv s" and look: "\<And>now. t \<le> now \<Longrightarrow> lookup s now = timed_lookup m now"
    using assms x by (auto simp: agrees_def)
  show ?thesis
    using assms(3) inv look x
    by (cases x') (auto simp: agrees_def set_lookup get_lookup delete_lookup sweep_lookup inv_ops
        timed_lookup_def fun_eq_iff)
qed

text \<open>Any sequence of operations at non-decreasing times behaves like the timed map.\<close>

lemma run_agrees:
  assumes "agrees t0 s m" "sorted (t0 # map fst xs)" "list_all sane_op xs"
  shows "agrees (last (t0 # map fst xs)) (fold run_op xs s) (fold timed_op xs m)"
  using assms
proof (induction xs arbitrary: t0 s m)
  case (Cons x xs)
  then have "agrees (fst x) (run_op x s) (timed_op x m)"
    by (intro run_op_agrees [of t0]) auto
  with Cons.IH [OF this] Cons.prems show ?case by simp
qed simp

text \<open>Read your writes, and the frame for the other keys, at any later time before the deadline.\<close>

lemma read_your_write:
  assumes "inv s" "sane t d" "t \<le> now" "d = 0 \<or> now \<le> t + d"
  shows "lookup (set_op t k v d s) now k = Some v"
    and "k' \<noteq> k \<Longrightarrow> lookup (set_op t k v d s) now k' = lookup s now k'"
  using assms by (simp_all add: set_lookup)

end

end
