(* ===== verification/Cache.thy ===== *)
theory Cache
  imports CacheSpec "HOL-Library.AList"
begin

text \<open>
  \<open>cachekit/memory.go\<close>: the in-memory cache. A Go map is an association list with distinct keys, so
  that ranging over it, in an order Go leaves open, is ranging over the list. \<open>time.Time\<close> counts
  nanoseconds from its zero value, so \<open>IsZero\<close> is being 0. Each operation that takes the lock twice
  is split where it releases it; the whole operation is the composition. \<open>redis.go\<close> is at the end,
  with the client of \<open>go-redis\<close> as a parameter.
\<close>

type_synonym bytes = "nat list"

record cacheItem =
  item_value :: bytes
  item_expiration :: int

record mcache =
  items :: "(string \<times> cacheItem) list"

definition ErrCacheMiss :: gerror where
  "ErrCacheMiss = Sentinel ''cache: key not found''"

definition NewInMemoryCache :: mcache where
  "NewInMemoryCache = \<lparr>items = []\<rparr>"

definition has_expired :: "int \<Rightarrow> cacheItem \<Rightarrow> bool" where
  "has_expired now it \<longleftrightarrow> item_expiration it \<noteq> 0 \<and> now > item_expiration it"

section \<open>Operations\<close>

text \<open>\<open>Set\<close>: the deadline is computed before the lock is taken.\<close>

definition deadline :: "int \<Rightarrow> int \<Rightarrow> int" where
  "deadline now expiration = (if expiration \<noteq> 0 then now + expiration else 0)"

definition set_commit :: "string \<Rightarrow> bytes \<Rightarrow> int \<Rightarrow> mcache \<Rightarrow> mcache" where
  "set_commit key value exp c =
     c\<lparr>items := AList.update key \<lparr>item_value = value, item_expiration = exp\<rparr> (items c)\<rparr>"

definition Cache_Set ::
    "gerror option \<Rightarrow> int \<Rightarrow> string \<Rightarrow> bytes \<Rightarrow> int \<Rightarrow> mcache \<Rightarrow> gerror option \<times> mcache" where
  "Cache_Set cerr now key value expiration c =
     (case cerr of
        Some e \<Rightarrow> (Some e, c)
      | None \<Rightarrow> (None, set_commit key value (deadline now expiration) c))"

text \<open>
  The deletion under the write lock that \<open>Get\<close> and the sweeper share: only if the entry still has
  the expiration that was seen.
\<close>

definition delete_if_same :: "string \<Rightarrow> int \<Rightarrow> mcache \<Rightarrow> mcache" where
  "delete_if_same key exp c =
     (case map_of (items c) key of
        None \<Rightarrow> c
      | Some it \<Rightarrow> if item_expiration it = exp then c\<lparr>items := AList.delete key (items c)\<rparr> else c)"

definition Cache_Get ::
    "gerror option \<Rightarrow> int \<Rightarrow> string \<Rightarrow> mcache \<Rightarrow> (gerror + bytes) \<times> mcache" where
  "Cache_Get cerr now key c =
     (case cerr of
        Some e \<Rightarrow> (Inl e, c)
      | None \<Rightarrow>
          (case map_of (items c) key of
             None \<Rightarrow> (Inl ErrCacheMiss, c)
           | Some it \<Rightarrow>
               if has_expired now it then (Inl ErrCacheMiss, delete_if_same key (item_expiration it) c)
               else (Inr (item_value it), c)))"

definition Cache_Delete :: "gerror option \<Rightarrow> string \<Rightarrow> mcache \<Rightarrow> gerror option \<times> mcache" where
  "Cache_Delete cerr key c =
     (case cerr of
        Some e \<Rightarrow> (Some e, c)
      | None \<Rightarrow> (None, c\<lparr>items := AList.delete key (items c)\<rparr>))"

text \<open>The sweeper: the read-only scan, then the deletions under the write lock.\<close>

definition evict_scan :: "int \<Rightarrow> mcache \<Rightarrow> (string \<times> int) list" where
  "evict_scan now c =
     map (\<lambda>(k, it). (k, item_expiration it)) (filter (\<lambda>(k, it). has_expired now it) (items c))"

definition evict_delete :: "(string \<times> int) list \<Rightarrow> mcache \<Rightarrow> mcache" where
  "evict_delete expiredKeys c = fold (\<lambda>(k, exp). delete_if_same k exp) expiredKeys c"

definition evictExpired :: "int \<Rightarrow> mcache \<Rightarrow> mcache" where
  "evictExpired now c =
     (let expiredKeys = evict_scan now c
      in if length expiredKeys = 0 then c else evict_delete expiredKeys c)"

section \<open>Redis\<close>

text \<open>
  The three commands of the client and its sentinel \<open>redis.Nil\<close> are parameters; a command takes the
  store it runs against.
\<close>

definition Redis_Set ::
    "('st \<Rightarrow> string \<Rightarrow> bytes \<Rightarrow> int \<Rightarrow> gerror option \<times> 'st) \<Rightarrow> string \<Rightarrow> bytes \<Rightarrow> int \<Rightarrow> 'st
     \<Rightarrow> gerror option \<times> 'st" where
  "Redis_Set client_set key value expiration st =
     (case client_set st key value expiration of
        (Some e, st') \<Rightarrow> (Some e, st') | (None, st') \<Rightarrow> (None, st'))"

definition Redis_Get :: "gerror \<Rightarrow> ('st \<Rightarrow> string \<Rightarrow> gerror + bytes) \<Rightarrow> string \<Rightarrow> 'st \<Rightarrow> gerror + bytes" where
  "Redis_Get redis_nil client_get key st =
     (case client_get st key of
        Inl e \<Rightarrow> if errors_is e redis_nil then Inl ErrCacheMiss else Inl e
      | Inr val \<Rightarrow> Inr val)"

definition Redis_Delete ::
    "('st \<Rightarrow> string \<Rightarrow> gerror option \<times> 'st) \<Rightarrow> string \<Rightarrow> 'st \<Rightarrow> gerror option \<times> 'st" where
  "Redis_Delete client_del key st =
     (case client_del st key of (Some e, st') \<Rightarrow> (Some e, st') | (None, st') \<Rightarrow> (None, st'))"

section \<open>The map an observer sees\<close>

definition cache_wf :: "mcache \<Rightarrow> bool" where
  "cache_wf c \<longleftrightarrow> distinct (map fst (items c))"

text \<open>What \<open>Get\<close> returns at a time: the entries that have not expired.\<close>

definition live :: "mcache \<Rightarrow> int \<Rightarrow> string \<Rightarrow> bytes option" where
  "live c now k =
     (case map_of (items c) k of
        None \<Rightarrow> None
      | Some it \<Rightarrow> if has_expired now it then None else Some (item_value it))"

lemma NewInMemoryCache_wf [simp]: "cache_wf NewInMemoryCache" "live NewInMemoryCache now k = None"
  by (simp_all add: cache_wf_def NewInMemoryCache_def live_def)

lemma set_commit_wf [simp]: "cache_wf c \<Longrightarrow> cache_wf (set_commit k v e c)"
  by (simp add: cache_wf_def set_commit_def distinct_update)

lemma items_delete_wf [simp]: "cache_wf c \<Longrightarrow> cache_wf (c\<lparr>items := AList.delete k (items c)\<rparr>)"
  by (simp add: cache_wf_def distinct_delete)

lemma delete_if_same_wf [simp]: "cache_wf c \<Longrightarrow> cache_wf (delete_if_same k e c)"
  by (simp add: delete_if_same_def split: option.split)

lemma evict_delete_wf [simp]: "cache_wf c \<Longrightarrow> cache_wf (evict_delete l c)"
  unfolding evict_delete_def by (induction l arbitrary: c) auto

lemma live_set:
  "live (set_commit k v e c) now =
     (live c now)(k := if e \<noteq> 0 \<and> now > e then None else Some v)"
  by (auto simp: live_def set_commit_def update_conv fun_eq_iff has_expired_def)

lemma live_delete: "live (c\<lparr>items := AList.delete k (items c)\<rparr>) now = (live c now)(k := None)"
  by (auto simp: live_def delete_conv fun_eq_iff)

text \<open>A deletion of an expiration that has passed does not change what is live.\<close>

lemma live_delete_if_same:
  assumes "e \<noteq> 0" "e < now"
  shows "live (delete_if_same k e c) now = live c now"
  using assms
  by (auto simp: delete_if_same_def live_delete fun_eq_iff split: option.split)
     (simp add: live_def has_expired_def)

lemma live_evict_delete:
  "list_all (\<lambda>(k, e). e \<noteq> 0 \<and> e < now) l \<Longrightarrow> live (evict_delete l c) now = live c now"
  unfolding evict_delete_def
  by (induction l arbitrary: c) (auto simp: live_delete_if_same)

lemma evict_scan_expired: "t \<le> now \<Longrightarrow> list_all (\<lambda>(k, e). e \<noteq> 0 \<and> e < now) (evict_scan t c)"
  by (auto simp: evict_scan_def list_all_iff has_expired_def)

lemma live_evictExpired: "t \<le> now \<Longrightarrow> live (evictExpired t c) now = live c now"
  by (simp add: evictExpired_def Let_def live_evict_delete evict_scan_expired)

lemma evictExpired_wf [simp]: "cache_wf c \<Longrightarrow> cache_wf (evictExpired t c)"
  by (simp add: evictExpired_def Let_def)

text \<open>Every expired entry goes, and only those.\<close>

lemma map_of_delete_if_same:
  "map_of (items (delete_if_same k e c)) =
     (map_of (items c))(k := (case map_of (items c) k of
        None \<Rightarrow> None | Some it \<Rightarrow> if item_expiration it = e then None else Some it))"
  by (auto simp: delete_if_same_def delete_conv fun_eq_iff split: option.split)

lemma map_of_evict_delete:
  assumes "distinct (map fst l)"
  shows "map_of (items (evict_delete l c)) k =
    (case map_of (items c) k of
       None \<Rightarrow> None
     | Some it \<Rightarrow> if map_of l k = Some (item_expiration it) then None else Some it)"
  using assms
proof (induction l arbitrary: c)
  case (Cons x l)
  obtain j e where x: "x = (j, e)" by (cases x)
  have step: "evict_delete (x # l) c = evict_delete l (delete_if_same j e c)"
    by (simp add: evict_delete_def x)
  have j: "map_of l j = None" using Cons.prems x by (simp add: map_of_eq_None_iff)
  have "distinct (map fst l)" using Cons.prems by simp
  from Cons.IH [OF this, of "delete_if_same j e c"] j show ?case
    unfolding step by (auto simp: x map_of_delete_if_same split: option.splits)
qed (simp add: evict_delete_def split: option.split)

section \<open>The cache provides the interface\<close>

text \<open>
  Clock readings and durations that can occur: the present is more than \<open>2\<^sup>6\<^sup>3\<close> ns (292 years) after
  the zero time of \<open>time.Time\<close>, which is the year 1, and a duration is an int64. No deadline is then
  mistaken for the zero time.
\<close>

definition sane_clock :: "int \<Rightarrow> int \<Rightarrow> bool" where
  "sane_clock t d \<longleftrightarrow> 2 ^ 63 < t \<and> - (2 ^ 63) \<le> d \<and> d < 2 ^ 63"

lemma deadline_nonzero: "sane_clock t d \<Longrightarrow> deadline t d = 0 \<longleftrightarrow> d = 0"
  by (auto simp: sane_clock_def deadline_def)

lemma live_Get: "t \<le> now \<Longrightarrow> live (snd (Cache_Get None t k c)) now = live c now"
  by (auto simp: Cache_Get_def has_expired_def live_delete_if_same split: option.split)

lemma fst_Get:
  "fst (Cache_Get None now k c) = (case live c now k of None \<Rightarrow> Inl ErrCacheMiss | Some v \<Rightarrow> Inr v)"
  by (simp add: Cache_Get_def live_def split: option.split)

interpretation mem: cache_api live "\<lambda>t k v d c. snd (Cache_Set None t k v d c)"
  "\<lambda>t k c. snd (Cache_Get None t k c)" "\<lambda>t k c. snd (Cache_Delete None k c)" evictExpired
  cache_wf sane_clock
proof unfold_locales
  fix s t d now k v
  assume "sane_clock t d" "t \<le> now"
  then show "live (snd (Cache_Set None t k v d s)) now =
      (live s now)(k := if d = 0 \<or> now \<le> t + d then Some v else None)"
    by (auto simp: Cache_Set_def live_set deadline_nonzero) (auto simp: deadline_def)
next
  fix s t k
  show "cache_wf s \<Longrightarrow> cache_wf (snd (Cache_Get None t k s))"
    by (simp add: Cache_Get_def split: option.split)
qed (auto simp: live_Get live_delete live_evictExpired Cache_Delete_def Cache_Set_def)

text \<open>A sequence of timed operations on the model's cache.\<close>

fun mem_op :: "int \<times> (string, bytes) cache_op \<Rightarrow> mcache \<Rightarrow> mcache" where
  "mem_op (t, OSet k v d) c = snd (Cache_Set None t k v d c)"
| "mem_op (t, OGet k) c = snd (Cache_Get None t k c)"
| "mem_op (t, ODelete k) c = snd (Cache_Delete None k c)"
| "mem_op (t, OSweep) c = evictExpired t c"

fun sane_mem_op :: "int \<times> (string, bytes) cache_op \<Rightarrow> bool" where
  "sane_mem_op (t, OSet k v d) = sane_clock t d"
| "sane_mem_op (t, OGet k) = True"
| "sane_mem_op (t, ODelete k) = True"
| "sane_mem_op (t, OSweep) = True"

lemma mem_op_run_op: "mem_op = mem.run_op"
proof
  fix x :: "int \<times> (string, bytes) cache_op"
  obtain t y where "x = (t, y)" by (cases x)
  then show "mem_op x = mem.run_op x" by (cases y) (auto simp: fun_eq_iff)
qed

lemma sane_mem_op_sane_op: "sane_mem_op = mem.sane_op"
proof
  fix x :: "int \<times> (string, bytes) cache_op"
  obtain t y where "x = (t, y)" by (cases x)
  then show "sane_mem_op x = mem.sane_op x" by (cases y) auto
qed

lemma mem_refines:
  assumes "sorted (map fst xs)" "list_all sane_mem_op xs" "\<forall>x \<in> set xs. fst x \<le> now"
  shows "fst (Cache_Get None now k (fold mem_op xs NewInMemoryCache)) =
    (case timed_lookup (fold timed_op xs Map.empty) now k of
       None \<Rightarrow> Inl ErrCacheMiss | Some v \<Rightarrow> Inr v)"
proof -
  let ?t0 = "case xs of [] \<Rightarrow> now | x # _ \<Rightarrow> fst x"
  have "mem.agrees ?t0 NewInMemoryCache Map.empty"
    by (auto simp: mem.agrees_def timed_lookup_def fun_eq_iff)
  moreover have "sorted (?t0 # map fst xs)" using assms(1) by (cases xs) auto
  ultimately have "mem.agrees (last (?t0 # map fst xs)) (fold mem_op xs NewInMemoryCache)
      (fold timed_op xs Map.empty)"
    using assms(2) unfolding mem_op_run_op sane_mem_op_sane_op by (intro mem.run_agrees)
  moreover have "last (?t0 # map fst xs) \<le> now"
    using assms(3) by (cases xs) (auto simp: last_map)
  ultimately show ?thesis by (simp add: mem.agrees_def fst_Get)
qed

section \<open>Properties\<close>

text \<open>
  C4: the in-memory cache refines the timed map. After any sequence of sets, gets, deletes and sweeps
  at non-decreasing times, \<open>Get\<close> at any later time returns the value last set for the key if it was
  not deleted since and its expiration has not passed, and \<open>ErrCacheMiss\<close> otherwise; in particular
  neither the lazy deletion of \<open>Get\<close> nor the sweeper is observable.
\<close>

theorem cache_refines_timed_map:
  assumes "sorted (map fst xs)" "list_all sane_mem_op xs" "\<forall>x \<in> set xs. fst x \<le> now"
  shows "fst (Cache_Get None now k (fold mem_op xs NewInMemoryCache)) =
    (case timed_lookup (fold timed_op xs Map.empty) now k of
       None \<Rightarrow> Inl ErrCacheMiss | Some v \<Rightarrow> Inr v)"
  using assms by (rule mem_refines)

theorem cache_refines_timed_map_witness:
  "fst (Cache_Get None (2 ^ 64 + 30) ''a''
      (fold mem_op [(2 ^ 64, OSet ''a'' [1] 10), (2 ^ 64 + 20, OSweep), (2 ^ 64 + 25, OSet ''a'' [2] 10)]
        NewInMemoryCache)) = Inr [2]"
proof -
  let ?xs = "[(2 ^ 64, OSet ''a'' [1] 10), (2 ^ 64 + 20, OSweep), (2 ^ 64 + 25, OSet ''a'' [2] 10)]
      :: (int \<times> (string, bytes) cache_op) list"
  have "sorted (map fst ?xs)" "list_all sane_mem_op ?xs" "\<forall>x \<in> set ?xs. fst x \<le> 2 ^ 64 + 30"
    by (simp_all add: sane_clock_def)
  from cache_refines_timed_map [OF this, of "''a''"] show ?thesis
    by (simp add: timed_lookup_def)
qed

text \<open>
  A sweep removes the entries that have expired by its clock reading and no others: every other
  entry stays with its value and expiration, whatever the order the map is ranged over.
\<close>

theorem sweep_removes_exactly_expired:
  assumes "cache_wf c"
  shows "map_of (items (evictExpired now c)) k =
    (case map_of (items c) k of
       None \<Rightarrow> None
     | Some it \<Rightarrow> if has_expired now it then None else Some it)"
proof -
  have filter: "map_of (filter (\<lambda>(k, it). has_expired now it) xs) k =
      (case map_of xs k of None \<Rightarrow> None | Some it \<Rightarrow> if has_expired now it then Some it else None)"
    if "distinct (map fst xs)" for xs :: "(string \<times> cacheItem) list"
    using that
    by (induction xs) (auto simp: dom_map_of_conv_image_fst map_of_eq_None_iff image_iff split: option.splits)
  have scan: "map_of (evict_scan now c) k =
      (case map_of (items c) k of None \<Rightarrow> None
       | Some it \<Rightarrow> if has_expired now it then Some (item_expiration it) else None)"
    using filter [of "items c"] assms
    by (simp add: evict_scan_def map_of_map cache_wf_def split: option.split)
  have "map fst (evict_scan now c) = map fst (filter (\<lambda>(k, it). has_expired now it) (items c))"
    by (simp add: evict_scan_def case_prod_beta comp_def)
  then have "distinct (map fst (evict_scan now c))"
    using assms by (simp add: cache_wf_def distinct_map_filter)
  from map_of_evict_delete [OF this, of c k] scan show ?thesis
    by (auto simp: evictExpired_def Let_def evict_delete_def split: option.splits if_splits)
qed

theorem sweep_removes_exactly_expired_witness:
  "map_of (items (evictExpired 50
      \<lparr>items = [(''a'', \<lparr>item_value = [1], item_expiration = 40\<rparr>),
                (''b'', \<lparr>item_value = [2], item_expiration = 0\<rparr>)]\<rparr>)) ''b''
   = Some \<lparr>item_value = [2], item_expiration = 0\<rparr>"
proof -
  let ?c = "\<lparr>items = [(''a'', \<lparr>item_value = [1], item_expiration = 40\<rparr>),
                (''b'', \<lparr>item_value = [2], item_expiration = 0\<rparr>)]\<rparr>"
  have "cache_wf ?c" by (simp add: cache_wf_def)
  from sweep_removes_exactly_expired [OF this, of 50 "''b''"] show ?thesis
    by (simp add: has_expired_def)
qed

end
