(* ===== verification/CacheConc.thy ===== *)
theory CacheConc
  imports Cache
begin

text \<open>
  The in-memory cache under concurrency. A step is one locked section, one clock reading or a move of
  the cleanup goroutine; between them any other operation may run. \<open>Set\<close> computes its deadline and
  then takes the lock; \<open>Get\<close> reads under the read lock, compares with the clock, and only then, for an
  expired entry, takes the write lock (\<open>calls\<close> numbers the calls of \<open>Get\<close>, so that an answer can be told
  from that of another call for the same key); the sweeper scans under the read lock and deletes under the
  write lock. \<open>Close\<close> closes \<open>stopCh\<close> and waits for the goroutine. Ghost fields record every committed
  entry and every answer given by \<open>Get\<close>. Steps are labelled with their effect on the abstract map.
\<close>

datatype job =
    Setting string bytes int                 \<comment> \<open>deadline computed, lock not yet taken\<close>
  | Read_entry nat string "cacheItem option" \<comment> \<open>\<open>Get\<close> after its read-locked section\<close>
  | Deleting nat string int                  \<comment> \<open>\<open>Get\<close> before its write-locked section\<close>

datatype cleaner =
    No_cleaner | Idle | Sweep_started int | Sweep_scanned "(string \<times> int) list" | Exited

record cc_sys =
  cc :: mcache
  cc_now :: int
  jobs :: "job multiset"
  cleaner :: cleaner
  stop_closed :: bool
  committed :: "(string \<times> cacheItem) list"
  calls :: nat
  answers :: "(nat \<times> string \<times> bytes option \<times> int) list"

datatype label = Quiet | Elapse | Stored string cacheItem | Removed string

inductive cc_step :: "label \<Rightarrow> cc_sys \<Rightarrow> cc_sys \<Rightarrow> bool" where
  elapse: "0 \<le> d \<Longrightarrow> cc_step Elapse s (s\<lparr>cc_now := cc_now s + d\<rparr>)"
| set_prepare:
    "cc_step Quiet s (s\<lparr>jobs := add_mset (Setting k v (deadline (cc_now s) d)) (jobs s)\<rparr>)"
| set_store: "Setting k v e \<in># jobs s \<Longrightarrow>
    cc_step (Stored k \<lparr>item_value = v, item_expiration = e\<rparr>) s
      (s\<lparr>cc := set_commit k v e (cc s), jobs := jobs s - {#Setting k v e#},
         committed := (k, \<lparr>item_value = v, item_expiration = e\<rparr>) # committed s\<rparr>)"
| get_read: "cc_step Quiet s
      (s\<lparr>jobs := add_mset (Read_entry (calls s) k (map_of (items (cc s)) k)) (jobs s), calls := calls s + 1\<rparr>)"
| get_miss: "Read_entry i k None \<in># jobs s \<Longrightarrow>
    cc_step Quiet s (s\<lparr>jobs := jobs s - {#Read_entry i k None#},
       answers := (i, k, None, cc_now s) # answers s\<rparr>)"
| get_hit: "Read_entry i k (Some it) \<in># jobs s \<Longrightarrow> \<not> has_expired (cc_now s) it \<Longrightarrow>
    cc_step Quiet s (s\<lparr>jobs := jobs s - {#Read_entry i k (Some it)#},
       answers := (i, k, Some (item_value it), cc_now s) # answers s\<rparr>)"
| get_expired: "Read_entry i k (Some it) \<in># jobs s \<Longrightarrow> has_expired (cc_now s) it \<Longrightarrow>
    cc_step Quiet s (s\<lparr>jobs := add_mset (Deleting i k (item_expiration it))
       (jobs s - {#Read_entry i k (Some it)#})\<rparr>)"
| get_delete: "Deleting i k e \<in># jobs s \<Longrightarrow>
    cc_step Quiet s (s\<lparr>cc := delete_if_same k e (cc s), jobs := jobs s - {#Deleting i k e#},
       answers := (i, k, None, cc_now s) # answers s\<rparr>)"
| delete: "cc_step (Removed k) s (s\<lparr>cc := snd (Cache_Delete None k (cc s))\<rparr>)"
| sweep_start: "cleaner s = Idle \<Longrightarrow> cc_step Quiet s (s\<lparr>cleaner := Sweep_started (cc_now s)\<rparr>)"
| sweep_scan: "cleaner s = Sweep_started t \<Longrightarrow>
    cc_step Quiet s (s\<lparr>cleaner := (case evict_scan t (cc s) of
        [] \<Rightarrow> Idle | x # xs \<Rightarrow> Sweep_scanned (x # xs))\<rparr>)"
| sweep_delete: "cleaner s = Sweep_scanned l \<Longrightarrow>
    cc_step Quiet s (s\<lparr>cc := evict_delete l (cc s), cleaner := Idle\<rparr>)"
| close: "cc_step Quiet s (s\<lparr>stop_closed := True\<rparr>)"
| cleaner_exit: "cleaner s = Idle \<Longrightarrow> stop_closed s \<Longrightarrow> cc_step Quiet s (s\<lparr>cleaner := Exited\<rparr>)"

text \<open>\<open>NewInMemoryCache\<close> starts the goroutine only for a positive interval.\<close>

definition cc_init :: "int \<Rightarrow> cc_sys \<Rightarrow> bool" where
  "cc_init cleanupInterval s \<longleftrightarrow> cc s = NewInMemoryCache \<and> jobs s = {#} \<and> \<not> stop_closed s
     \<and> cleaner s = (if cleanupInterval > 0 then Idle else No_cleaner)
     \<and> committed s = [] \<and> calls s = 0 \<and> answers s = []"

text \<open>\<open>Close\<close> returns when the wait group is empty: there is no goroutine, or it has exited.\<close>

definition close_returns :: "cc_sys \<Rightarrow> bool" where
  "close_returns s \<longleftrightarrow> stop_closed s \<and> (cleaner s = No_cleaner \<or> cleaner s = Exited)"

definition cc_next :: "cc_sys \<Rightarrow> cc_sys \<Rightarrow> bool" where
  "cc_next s t \<longleftrightarrow> (\<exists>l. cc_step l s t)"

inductive_cases quiet_stepE: "cc_step Quiet s t"

section \<open>Invariant\<close>

text \<open>What a pending second phase knows: the expirations it will delete have passed.\<close>

fun job_ok :: "cc_sys \<Rightarrow> job \<Rightarrow> bool" where
  "job_ok s (Setting k v e) = True"
| "job_ok s (Read_entry i k None) = True"
| "job_ok s (Read_entry i k (Some it)) = ((k, it) \<in> set (committed s))"
| "job_ok s (Deleting i k e) = (e \<noteq> 0 \<and> e < cc_now s)"

fun cleaner_ok :: "cc_sys \<Rightarrow> cleaner \<Rightarrow> bool" where
  "cleaner_ok s (Sweep_started t) = (t \<le> cc_now s)"
| "cleaner_ok s (Sweep_scanned l) = list_all (\<lambda>(k, e). e \<noteq> 0 \<and> e < cc_now s) l"
| "cleaner_ok s Exited = stop_closed s"
| "cleaner_ok s _ = True"

definition answer_ok :: "cc_sys \<Rightarrow> nat \<times> string \<times> bytes option \<times> int \<Rightarrow> bool" where
  "answer_ok s a = (case a of (i, k, r, t) \<Rightarrow> (case r of None \<Rightarrow> True
     | Some v \<Rightarrow> \<exists>it. (k, it) \<in> set (committed s) \<and> item_value it = v \<and> \<not> has_expired t it))"

definition cc_inv :: "cc_sys \<Rightarrow> bool" where
  "cc_inv s \<longleftrightarrow> cache_wf (cc s) \<and> (\<forall>j \<in># jobs s. job_ok s j) \<and> cleaner_ok s (cleaner s)
     \<and> set (items (cc s)) \<subseteq> set (committed s) \<and> list_all (answer_ok s) (answers s)"

lemma job_ok_mono:
  "job_ok s j \<Longrightarrow> cc_now s \<le> cc_now t \<Longrightarrow> set (committed s) \<subseteq> set (committed t) \<Longrightarrow> job_ok t j"
  by (induction s j rule: job_ok.induct) auto

lemma answer_ok_mono:
  "answer_ok s a \<Longrightarrow> set (committed s) \<subseteq> set (committed t) \<Longrightarrow> answer_ok t a"
  by (cases a) (fastforce simp: answer_ok_def split: option.splits)

lemma cleaner_ok_mono:
  "cleaner_ok s c \<Longrightarrow> cc_now s \<le> cc_now t \<Longrightarrow> stop_closed s \<longrightarrow> stop_closed t \<Longrightarrow> cleaner_ok t c"
  by (cases c) (auto simp: list_all_iff)

lemma items_delete_if_same: "set (items (delete_if_same k e c)) \<subseteq> set (items c)"
  by (auto simp: delete_if_same_def AList.delete_eq split: option.splits if_splits)

lemma items_set_commit:
  "set (items (set_commit k v e c)) \<subseteq> insert (k, \<lparr>item_value = v, item_expiration = e\<rparr>) (set (items c))"
proof -
  have "set (AList.update k x al) \<subseteq> insert (k, x) (set al)" for x and al :: "(string \<times> cacheItem) list"
    by (induction al) auto
  then show ?thesis by (simp add: set_commit_def)
qed

lemma items_evict_delete: "set (items (evict_delete l c)) \<subseteq> set (items c)"
  unfolding evict_delete_def
proof (induction l arbitrary: c)
  case (Cons x l)
  obtain k e where x: "x = (k, e)" by (cases x)
  from Cons [of "delete_if_same k e c"] items_delete_if_same [of k e c] show ?case
    by (auto simp: x)
qed simp

lemma cc_inv_frame:
  assumes "cc_inv s" "cc_now s \<le> cc_now t" "set (committed s) \<subseteq> set (committed t)"
    and "stop_closed s \<longrightarrow> stop_closed t" "cache_wf (cc t)"
    and "\<And>j. j \<in># jobs t \<Longrightarrow> j \<in># jobs s \<or> job_ok t j"
    and "cleaner t = cleaner s \<or> cleaner_ok t (cleaner t)"
    and "set (items (cc t)) \<subseteq> set (committed t)"
    and "\<And>a. a \<in> set (answers t) \<Longrightarrow> a \<in> set (answers s) \<or> answer_ok t a"
  shows "cc_inv t"
  unfolding cc_inv_def
proof (intro conjI)
  show "\<forall>j \<in># jobs t. job_ok t j"
    using assms(1-3,6) job_ok_mono by (metis cc_inv_def)
  show "cleaner_ok t (cleaner t)"
    using assms(1,2,4,7) cleaner_ok_mono by (metis cc_inv_def)
  show "list_all (answer_ok t) (answers t)"
    using assms(1,3,9) answer_ok_mono unfolding cc_inv_def list_all_iff by metis
qed (use assms in simp_all)

lemma map_of_committed:
  "cc_inv s \<Longrightarrow> map_of (items (cc s)) k = Some it \<Longrightarrow> (k, it) \<in> set (committed s)"
  by (auto simp: cc_inv_def dest: map_of_SomeD)

lemma cc_step_inv:
  assumes "cc_step l s t" "cc_inv s"
  shows "cc_inv t"
proof -
  have wf: "cache_wf (cc s)" and sub: "set (items (cc s)) \<subseteq> set (committed s)"
    and jobs: "\<And>j. j \<in># jobs s \<Longrightarrow> job_ok s j" and cl: "cleaner_ok s (cleaner s)"
    using assms(2) by (simp_all add: cc_inv_def)
  note frame = cc_inv_frame [OF assms(2)]
  from assms(1) show ?thesis
  proof cases
    case (set_store k v e)
    with items_set_commit [of k v e "cc s"] wf sub show ?thesis
      by (intro frame) (auto dest: in_diffD)
  next
    case (get_read k)
    have "job_ok t (Read_entry (calls s) k (map_of (items (cc s)) k))"
      using get_read map_of_committed [OF assms(2)]
      by (cases "map_of (items (cc s)) k") auto
    with get_read wf sub show ?thesis by (intro frame) auto
  next
    case (get_hit i k it)
    have "answer_ok t (i, k, Some (item_value it), cc_now s)"
      using jobs [OF get_hit(3)] get_hit by (auto simp: answer_ok_def)
    with get_hit wf sub show ?thesis by (intro frame) (auto dest: in_diffD)
  next
    case (get_delete i k e)
    with items_delete_if_same [of k e "cc s"] wf sub show ?thesis
      by (intro frame) (auto simp: answer_ok_def dest: in_diffD)
  next
    case (delete k)
    have "set (items (snd (Cache_Delete None k (cc s)))) \<subseteq> set (items (cc s))"
      by (auto simp: Cache_Delete_def AList.delete_eq)
    with delete wf sub show ?thesis by (intro frame) (auto simp: Cache_Delete_def)
  next
    case (sweep_scan u)
    have "list_all (\<lambda>(k, e). e \<noteq> 0 \<and> e < cc_now s) (evict_scan u (cc s))"
      using cl sweep_scan by (intro evict_scan_expired) simp
    with sweep_scan wf sub show ?thesis by (intro frame) (auto split: list.split)
  next
    case (sweep_delete l)
    with items_evict_delete [of l "cc s"] wf sub show ?thesis by (intro frame) auto
  qed (use wf sub in \<open>intro frame; auto simp: answer_ok_def has_expired_def dest: in_diffD\<close>)+
qed

lemma cc_init_inv: "cc_init n s \<Longrightarrow> cc_inv s"
  by (auto simp: cc_init_def cc_inv_def NewInMemoryCache_def cache_wf_def)

lemma cc_next_inv: "cc_next s t \<Longrightarrow> cc_inv s \<Longrightarrow> cc_inv t"
  by (auto simp: cc_next_def intro: cc_step_inv)

interpretation cache_sys: inductive_invariant "cc_init n" cc_next cc_inv for n
  by unfold_locales (fact cc_init_inv cc_next_inv)+

section \<open>Effects on the abstract map\<close>

text \<open>What a label means for the map observers see, at a given time.\<close>

fun label_effect :: "int \<Rightarrow> label \<Rightarrow> (string \<Rightarrow> bytes option) \<Rightarrow> string \<Rightarrow> bytes option" where
  "label_effect now Quiet m = m"
| "label_effect now Elapse m = m"
| "label_effect now (Stored k it) m = m(k := if has_expired now it then None else Some (item_value it))"
| "label_effect now (Removed k) m = m(k := None)"

lemma cc_step_live:
  assumes "cc_step l s t" "cc_inv s" "cc_now t \<le> now"
  shows "live (cc t) now = label_effect now l (live (cc s) now)"
  using assms(1)
proof cases
  case (set_store k v e)
  then show ?thesis by (auto simp: live_set has_expired_def)
next
  case (get_delete i k e)
  with assms(2) have "job_ok s (Deleting i k e)" by (auto simp: cc_inv_def)
  with get_delete assms(3) show ?thesis by (simp add: live_delete_if_same)
next
  case (delete k)
  then show ?thesis by (simp add: Cache_Delete_def live_delete)
next
  case (sweep_delete l)
  with assms(2) have "cleaner_ok s (Sweep_scanned l)" by (auto simp: cc_inv_def)
  with assms(3) sweep_delete have "list_all (\<lambda>(k, e). e \<noteq> 0 \<and> e < now) l"
    by (auto simp: list_all_iff)
  with sweep_delete show ?thesis by (simp add: live_evict_delete)
qed simp_all

section \<open>Close\<close>

text \<open>
  A move of the cleanup goroutine itself, and the number of them left before it is gone once
  \<open>stopCh\<close> is closed and the scheduler lets it see that.
\<close>

definition cleaner_next :: "cc_sys \<Rightarrow> cc_sys" where
  "cleaner_next s = (case cleaner s of
      No_cleaner \<Rightarrow> s
    | Idle \<Rightarrow> s\<lparr>cleaner := Exited\<rparr>
    | Sweep_started t \<Rightarrow> s\<lparr>cleaner := (case evict_scan t (cc s) of
        [] \<Rightarrow> Idle | x # xs \<Rightarrow> Sweep_scanned (x # xs))\<rparr>
    | Sweep_scanned l \<Rightarrow> s\<lparr>cc := evict_delete l (cc s), cleaner := Idle\<rparr>
    | Exited \<Rightarrow> s)"

fun cleaner_left :: "cleaner \<Rightarrow> nat" where
  "cleaner_left (Sweep_started t) = 3"
| "cleaner_left (Sweep_scanned l) = 2"
| "cleaner_left Idle = 1"
| "cleaner_left _ = 0"

lemma cleaner_next_step:
  assumes "stop_closed s" "\<not> close_returns s"
  shows "cc_step Quiet s (cleaner_next s)" "stop_closed (cleaner_next s)"
    "cleaner_left (cleaner (cleaner_next s)) < cleaner_left (cleaner s)"
proof -
  show "cc_step Quiet s (cleaner_next s)"
    using assms cc_step.cleaner_exit [of s] cc_step.sweep_scan [of s] cc_step.sweep_delete [of s]
    by (cases "cleaner s") (auto simp: close_returns_def cleaner_next_def)
  show "stop_closed (cleaner_next s)"
    using assms by (cases "cleaner s") (auto simp: cleaner_next_def)
  show "cleaner_left (cleaner (cleaner_next s)) < cleaner_left (cleaner s)"
    using assms by (cases "cleaner s")
      (auto simp: close_returns_def cleaner_next_def split: list.split)
qed

lemma close_eventually:
  "stop_closed s \<Longrightarrow> \<exists>n \<le> cleaner_left (cleaner s). close_returns ((cleaner_next ^^ n) s)"
proof (induction "cleaner_left (cleaner s)" arbitrary: s rule: less_induct)
  case less
  show ?case
  proof (cases "close_returns s")
    case True
    then show ?thesis by (intro exI [of _ 0]) simp
  next
    case False
    from less.hyps [OF cleaner_next_step(3) [OF less.prems False] cleaner_next_step(2) [OF less.prems False]]
    obtain n where n: "n \<le> cleaner_left (cleaner (cleaner_next s))"
      "close_returns ((cleaner_next ^^ n) (cleaner_next s))" by blast
    with cleaner_next_step(3) [OF less.prems False] show ?thesis
      by (intro exI [of _ "Suc n"]) (simp add: funpow_swap1)
  qed
qed

lemma cleaner_left_le: "cleaner_left c \<le> 3"
  by (cases c) auto

section \<open>Properties of the concurrent cache\<close>

text \<open>A run that sets a key, lets it expire, and is about to delete it from a stale read.\<close>

definition stale_read_state :: cc_sys where
  "stale_read_state =
     \<lparr>cc = set_commit ''k'' [7] 0 (set_commit ''k'' [1] 105 NewInMemoryCache), cc_now = 200,
      jobs = {#Deleting 0 ''k'' 105#}, cleaner = Sweep_scanned [(''k'', 105)], stop_closed = False,
      committed = [(''k'', \<lparr>item_value = [7], item_expiration = 0\<rparr>),
                   (''k'', \<lparr>item_value = [1], item_expiration = 105\<rparr>)],
      calls = 1, answers = []\<rparr>"

definition fresh_cache_sys :: "int \<Rightarrow> cc_sys" where
  "fresh_cache_sys now = \<lparr>cc = NewInMemoryCache, cc_now = now, jobs = {#}, cleaner = Idle,
     stop_closed = False, committed = [], calls = 0, answers = []\<rparr>"

lemma stale_read_reachable: "reachable (cc_init 1) cc_next stale_read_state"
proof -
  let ?m1 = "set_commit ''k'' [1] 105 NewInMemoryCache"
  let ?i1 = "\<lparr>item_value = [1], item_expiration = 105\<rparr>"
  let ?i2 = "\<lparr>item_value = [7], item_expiration = 0\<rparr>"
  let ?s0 = "fresh_cache_sys 100"
  let ?s1 = "?s0\<lparr>jobs := {#Setting ''k'' [1] 105#}\<rparr>"
  let ?s2 = "?s0\<lparr>cc := ?m1, committed := [(''k'', ?i1)]\<rparr>"
  let ?s3 = "?s2\<lparr>cc_now := 200\<rparr>"
  let ?s4 = "?s3\<lparr>jobs := {#Read_entry 0 ''k'' (Some ?i1)#}, calls := 1\<rparr>"
  let ?s5 = "?s3\<lparr>jobs := {#Deleting 0 ''k'' 105#}, calls := 1\<rparr>"
  let ?s6 = "?s5\<lparr>cleaner := Sweep_started 200\<rparr>"
  let ?s7 = "?s5\<lparr>cleaner := Sweep_scanned [(''k'', 105)]\<rparr>"
  let ?s8 = "?s7\<lparr>jobs := {#Setting ''k'' [7] 0, Deleting 0 ''k'' 105#}\<rparr>"
  note defs = fresh_cache_sys_def set_commit_def NewInMemoryCache_def
  have "reachable (cc_init 1) cc_next ?s0"
    by (rule reachable_init) (simp add: cc_init_def fresh_cache_sys_def)
  moreover have "cc_step Quiet ?s0 ?s1"
    using cc_step.set_prepare [of ?s0 "''k''" "[1]" 5] by (simp add: fresh_cache_sys_def deadline_def)
  moreover have "cc_step (Stored ''k'' ?i1) ?s1 ?s2"
    using cc_step.set_store [of "''k''" "[1]" 105 ?s1] by (simp add: fresh_cache_sys_def)
  moreover have "cc_step Elapse ?s2 ?s3"
    using cc_step.elapse [of 100 ?s2] by (simp add: fresh_cache_sys_def)
  moreover have "cc_step Quiet ?s3 ?s4"
    using cc_step.get_read [of ?s3 "''k''"] by (simp add: defs)
  moreover have "cc_step Quiet ?s4 ?s5"
    using cc_step.get_expired [of 0 "''k''" ?i1 ?s4] by (simp add: fresh_cache_sys_def has_expired_def)
  moreover have "cc_step Quiet ?s5 ?s6"
    using cc_step.sweep_start [of ?s5] by (simp add: fresh_cache_sys_def)
  moreover have "cc_step Quiet ?s6 ?s7"
    using cc_step.sweep_scan [of ?s6 200] by (simp add: defs evict_scan_def has_expired_def)
  moreover have "cc_step Quiet ?s7 ?s8"
    using cc_step.set_prepare [of ?s7 "''k''" "[7]" 0] by (simp add: fresh_cache_sys_def deadline_def)
  moreover have "cc_step (Stored ''k'' ?i2) ?s8 stale_read_state"
    using cc_step.set_store [of "''k''" "[7]" 0 ?s8]
    by (simp add: fresh_cache_sys_def stale_read_state_def)
  ultimately show ?thesis
    by (meson cc_next_def reachable_step)
qed

text \<open>
  C10: the concurrent cache refines the timed map. In every reachable state each step of
  any operation, whatever is in progress beside it, changes the map an observer sees exactly as its
  label says: the store of a \<open>Set\<close> and the removal of a \<open>Delete\<close> do, and a stale read's or a sweep's
  deletion of an entry, even one replaced since it was seen, changes nothing.
\<close>

theorem concurrent_cache_linearises:
  assumes "reachable (cc_init n) cc_next s" "cc_step l s t" "cc_now t \<le> now"
  shows "live (cc t) now = label_effect now l (live (cc s) now)"
  using assms cc_step_live cache_sys.reachable_inv by blast

theorem concurrent_cache_linearises_witness:
  "live (evict_delete [(''k'', 105)] (cc stale_read_state)) 300 ''k'' = Some [7]"
proof -
  let ?t = "stale_read_state\<lparr>cc := evict_delete [(''k'', 105)] (cc stale_read_state), cleaner := Idle\<rparr>"
  have "cc_step Quiet stale_read_state ?t"
    by (rule cc_step.sweep_delete) (simp add: stale_read_state_def)
  from concurrent_cache_linearises [OF stale_read_reachable this, of 300] show ?thesis
    by (simp add: stale_read_state_def live_def set_commit_def NewInMemoryCache_def has_expired_def)
qed

text \<open>
  What a \<open>Get\<close> answers under concurrency was stored for that very key by a completed \<open>Set\<close>, and
  its deadline had not passed when \<open>Get\<close> looked at the clock.
\<close>

theorem get_answers_are_fresh:
  assumes "reachable (cc_init n) cc_next s" "(i, k, Some v, t) \<in> set (answers s)"
  shows "\<exists>it. (k, it) \<in> set (committed s) \<and> item_value it = v \<and> \<not> has_expired t it"
  using cache_sys.reachable_inv [OF assms(1)] assms(2)
  by (force simp: cc_inv_def list_all_iff answer_ok_def)

theorem get_answers_are_fresh_witness:
  "\<exists>it. (''k'', it) \<in> set (committed stale_read_state) \<and> item_value it = [7] \<and> \<not> has_expired 200 it"
proof -
  let ?it = "\<lparr>item_value = [7], item_expiration = 0\<rparr>"
  let ?s1 = "stale_read_state\<lparr>jobs := {#Read_entry 1 ''k'' (Some ?it), Deleting 0 ''k'' 105#}, calls := 2\<rparr>"
  let ?s2 = "stale_read_state\<lparr>calls := 2, answers := [(1, ''k'', Some [7], 200)]\<rparr>"
  have "cc_step Quiet stale_read_state ?s1"
    using cc_step.get_read [of stale_read_state "''k''"]
    by (simp add: stale_read_state_def set_commit_def NewInMemoryCache_def numeral_2_eq_2)
  moreover have "cc_step Quiet ?s1 ?s2"
    using cc_step.get_hit [of 1 "''k''" ?it ?s1] by (simp add: stale_read_state_def has_expired_def)
  ultimately have "reachable (cc_init 1) cc_next ?s2"
    by (meson cc_next_def reachable_step stale_read_reachable)
  from get_answers_are_fresh [OF this, of 1 "''k''" "[7]" 200] show ?thesis
    by (simp add: stale_read_state_def)
qed

text \<open>
  \<open>Close\<close> returns and leaves no goroutine behind. Once \<open>stopCh\<close> is closed, at most three moves
  of the cleanup goroutine, each of them enabled, bring the wait group to zero; and from the moment
  \<open>Close\<close> has returned no step of any operation starts a sweep again.
\<close>

theorem close_terminates_cleaner:
  assumes "reachable (cc_init n) cc_next s" "stop_closed s"
  shows "(\<exists>m \<le> 3. close_returns ((cleaner_next ^^ m) s) \<and> reachable (cc_init n) cc_next ((cleaner_next ^^ m) s))
    \<and> (close_returns s \<longrightarrow> (\<forall>l t. cc_step l s t \<longrightarrow> close_returns t \<and> cleaner t = cleaner s))"
proof (intro conjI impI allI)
  have "reachable (cc_init n) cc_next ((cleaner_next ^^ m) s) \<and> stop_closed ((cleaner_next ^^ m) s)" for m
  proof (induction m)
    case (Suc m)
    let ?u = "(cleaner_next ^^ m) s"
    show ?case
    proof (cases "close_returns ?u")
      case True
      then have "cleaner_next ?u = ?u" by (auto simp: close_returns_def cleaner_next_def)
      with Suc show ?thesis by simp
    next
      case False
      with Suc cleaner_next_step [of ?u] show ?thesis
        by (auto simp: cc_next_def intro: reachable_step)
    qed
  qed (use assms in auto)
  then show "\<exists>m \<le> 3. close_returns ((cleaner_next ^^ m) s) \<and> reachable (cc_init n) cc_next ((cleaner_next ^^ m) s)"
    using close_eventually [OF assms(2)] cleaner_left_le [of "cleaner s"] by (meson le_trans)
next
  fix l t
  assume "close_returns s" "cc_step l s t"
  then show "close_returns t" "cleaner t = cleaner s"
    by (auto simp: close_returns_def elim: cc_step.cases)
qed

theorem close_terminates_cleaner_witness:
  "\<exists>m \<le> 3. close_returns ((cleaner_next ^^ m) (stale_read_state\<lparr>stop_closed := True\<rparr>))"
proof -
  have "cc_step Quiet stale_read_state (stale_read_state\<lparr>stop_closed := True\<rparr>)"
    by (rule cc_step.close)
  then have "reachable (cc_init 1) cc_next (stale_read_state\<lparr>stop_closed := True\<rparr>)"
    by (meson cc_next_def reachable_step stale_read_reachable)
  from close_terminates_cleaner [OF this] show ?thesis by auto
qed

end
