(* ===== verification/CacheAnswers.thy ===== *)
theory CacheAnswers
  imports CacheConc
begin

text \<open>
  What \<open>Get\<close> answers while other operations run: whether there was a moment of the call at which the
  answer was right. There was one for every value returned; a miss may have none. A run is a sequence
  of states, and a call is in progress from its first locked section to its answer.
\<close>

section \<open>Moments of a run\<close>

definition cc_run :: "nat \<Rightarrow> (nat \<Rightarrow> cc_sys) \<Rightarrow> bool" where
  "cc_run n run \<longleftrightarrow> (\<forall>j < n. cc_next (run j) (run (Suc j)))"

text \<open>What an observer would be answered at this moment.\<close>

definition visible :: "cc_sys \<Rightarrow> string \<Rightarrow> bytes option" where
  "visible s k = live (cc s) (cc_now s) k"

text \<open>The \<open>i\<close>-th call of \<open>Get\<close> has read the entry of its key and has not answered.\<close>

definition in_progress :: "nat \<Rightarrow> string \<Rightarrow> cc_sys \<Rightarrow> bool" where
  "in_progress i k s \<longleftrightarrow> (\<exists>x. Read_entry i k x \<in># jobs s) \<or> (\<exists>e. Deleting i k e \<in># jobs s)"

text \<open>The key has an entry that is live at this moment and has expired by the time \<open>u\<close>.\<close>

definition expires_by :: "int \<Rightarrow> string \<Rightarrow> cc_sys \<Rightarrow> bool" where
  "expires_by u k m \<longleftrightarrow> (\<exists>it. map_of (items (cc m)) k = Some it
     \<and> \<not> has_expired (cc_now m) it \<and> has_expired u it)"

definition explains :: "string \<Rightarrow> bytes option \<Rightarrow> int \<Rightarrow> cc_sys \<Rightarrow> bool" where
  "explains k r u m \<longleftrightarrow> cc_now m \<le> u \<and> (visible m k = r \<or> r = None \<and> expires_by u k m)"

lemma cc_next_clock: "cc_next s t \<Longrightarrow> cc_now s \<le> cc_now t"
  by (auto simp: cc_next_def elim: cc_step.cases)

lemma cc_run_clock: "cc_run n run \<Longrightarrow> j \<le> n \<Longrightarrow> cc_now (run j) \<le> cc_now (run n)"
proof (induction n)
  case (Suc n)
  then have "cc_now (run n) \<le> cc_now (run (Suc n))" by (simp add: cc_run_def cc_next_clock)
  with Suc show ?case by (cases "j = Suc n") (force simp: cc_run_def)+
qed simp

lemma has_expired_later: "has_expired t it \<Longrightarrow> t \<le> u \<Longrightarrow> has_expired u it"
  by (simp add: has_expired_def)

lemma explains_later: "explains k r u m \<Longrightarrow> u \<le> v \<Longrightarrow> explains k r v m"
  by (auto simp: explains_def expires_by_def dest: has_expired_later)

section \<open>Every answer has an explanation\<close>

text \<open>
  At the end of a run: what a call in progress has read was so at a moment of that call, what it is
  about to answer is explained by one, and so are the answers given.
\<close>

definition explained :: "nat \<Rightarrow> (nat \<Rightarrow> cc_sys) \<Rightarrow> bool" where
  "explained n run \<longleftrightarrow>
     (\<forall>i k x. Read_entry i k x \<in># jobs (run n) \<longrightarrow>
        (\<exists>j \<le> n. in_progress i k (run j) \<and> map_of (items (cc (run j))) k = x))
   \<and> (\<forall>i k e. Deleting i k e \<in># jobs (run n) \<longrightarrow>
        (\<exists>j \<le> n. in_progress i k (run j) \<and> explains k None (cc_now (run n)) (run j)))
   \<and> (\<forall>i k r u. (i, k, r, u) \<in> set (answers (run n)) \<longrightarrow>
        (\<exists>j \<le> n. in_progress i k (run j) \<and> explains k r u (run j)))"

lemma explainedD:
  assumes "explained n run"
  shows "Read_entry i k x \<in># jobs (run n) \<Longrightarrow> \<exists>j \<le> n. in_progress i k (run j) \<and> map_of (items (cc (run j))) k = x"
    and "Deleting i k e \<in># jobs (run n) \<Longrightarrow>
      \<exists>j \<le> n. in_progress i k (run j) \<and> explains k None (cc_now (run n)) (run j)"
    and "(i, k, r, u) \<in> set (answers (run n)) \<Longrightarrow> \<exists>j \<le> n. in_progress i k (run j) \<and> explains k r u (run j)"
  using assms unfolding explained_def by simp_all blast+

lemma explainedI:
  assumes "explained n run" "cc_now (run n) \<le> cc_now (run (Suc n))"
    and "\<And>i k x. Read_entry i k x \<in># jobs (run (Suc n)) \<Longrightarrow> Read_entry i k x \<in># jobs (run n)
        \<or> map_of (items (cc (run (Suc n)))) k = x"
    and "\<And>i k e. Deleting i k e \<in># jobs (run (Suc n)) \<Longrightarrow> Deleting i k e \<in># jobs (run n)
        \<or> (\<exists>j \<le> n. in_progress i k (run j) \<and> explains k None (cc_now (run n)) (run j))"
    and "answers (run (Suc n)) = answers (run n) \<or> (\<exists>i k r. answers (run (Suc n)) = (i, k, r, cc_now (run n)) # answers (run n)
        \<and> (\<exists>j \<le> n. in_progress i k (run j) \<and> explains k r (cc_now (run n)) (run j)))"
  shows "explained (Suc n) run"
  unfolding explained_def
proof (intro conjI allI impI)
  fix i k x
  assume job: "Read_entry i k x \<in># jobs (run (Suc n))"
  show "\<exists>j \<le> Suc n. in_progress i k (run j) \<and> map_of (items (cc (run j))) k = x"
  proof (cases "Read_entry i k x \<in># jobs (run n)")
    case True
    from explainedD(1) [OF assms(1) this] show ?thesis using le_SucI by blast
  next
    case False
    with assms(3) [OF job] job show ?thesis by (intro exI [of _ "Suc n"]) (auto simp: in_progress_def)
  qed
next
  fix i k e
  assume "Deleting i k e \<in># jobs (run (Suc n))"
  from assms(4) [OF this] have "\<exists>j \<le> n. in_progress i k (run j) \<and> explains k None (cc_now (run n)) (run j)"
    using explainedD(2) [OF assms(1)] by blast
  then show "\<exists>j \<le> Suc n. in_progress i k (run j) \<and> explains k None (cc_now (run (Suc n))) (run j)"
    using explains_later [OF _ assms(2)] by (meson le_SucI)
next
  fix i k r u
  assume "(i, k, r, u) \<in> set (answers (run (Suc n)))"
  with assms(5) have "\<exists>j \<le> n. in_progress i k (run j) \<and> explains k r u (run j)"
    using explainedD(3) [OF assms(1)] by auto
  then show "\<exists>j \<le> Suc n. in_progress i k (run j) \<and> explains k r u (run j)" by (meson le_SucI)
qed

lemma read_entry_explains:
  assumes "cc_run n run" "explained n run" "Read_entry i k x \<in># jobs (run n)"
    and "case x of None \<Rightarrow> r = None
      | Some it \<Rightarrow> r = (if has_expired (cc_now (run n)) it then None else Some (item_value it))"
  shows "\<exists>j \<le> n. in_progress i k (run j) \<and> explains k r (cc_now (run n)) (run j)"
proof -
  obtain j where j: "j \<le> n" "in_progress i k (run j)" "map_of (items (cc (run j))) k = x"
    using explainedD(1) [OF assms(2,3)] by blast
  have now: "cc_now (run j) \<le> cc_now (run n)" by (rule cc_run_clock [OF assms(1) j(1)])
  have "has_expired (cc_now (run j)) it \<Longrightarrow> has_expired (cc_now (run n)) it" for it
    using now by (rule has_expired_later [rotated])
  with assms(4) j(3) now have "explains k r (cc_now (run n)) (run j)"
    by (auto simp: explains_def visible_def live_def expires_by_def split: option.splits if_splits)
  with j show ?thesis by blast
qed

lemma explained_step:
  assumes "cc_step l (run n) (run (Suc n))" "cc_run n run" "explained n run"
  shows "explained (Suc n) run"
proof -
  have "cc_next (run n) (run (Suc n))" using assms(1) by (auto simp: cc_next_def)
  note I = explainedI [OF assms(3) cc_next_clock [OF this]]
  note read = read_entry_explains [OF assms(2,3)]
  note deleting = explainedD(2) [OF assms(3)]
  from assms(1) show ?thesis
  proof cases
    case (get_miss i k)
    with read [of i k None None] show ?thesis by (intro I) (auto dest: in_diffD)
  next
    case (get_hit i k it)
    with read [of i k "Some it" "Some (item_value it)"] show ?thesis by (intro I) (auto dest: in_diffD)
  next
    case (get_expired i k it)
    with read [of i k "Some it" None] show ?thesis by (intro I) (auto dest: in_diffD)
  next
    case (get_delete i k e)
    with deleting [of i k e] show ?thesis by (intro I) (auto dest: in_diffD)
  qed (intro I; auto dest: in_diffD)+
qed

lemma explained_run:
  assumes "cc_init c (run 0)"
  shows "cc_run n run \<Longrightarrow> explained n run"
proof (induction n)
  case 0
  show ?case using assms by (simp add: explained_def cc_init_def)
next
  case (Suc n)
  then have "cc_run n run" and "cc_next (run n) (run (Suc n))" by (simp_all add: cc_run_def)
  with Suc.IH show ?case by (auto simp: cc_next_def intro: explained_step)
qed

section \<open>A spurious miss\<close>

text \<open>
  A run: a key is set with a deadline, \<open>Get\<close> reads the entry, the key is set again for ever, the old
  deadline passes, and \<open>Get\<close> answers a miss.
\<close>

definition first_item :: cacheItem where
  "first_item = \<lparr>item_value = [1], item_expiration = 105\<rparr>"

definition second_item :: cacheItem where
  "second_item = \<lparr>item_value = [7], item_expiration = 0\<rparr>"

definition before_get :: cc_sys where
  "before_get = (fresh_cache_sys 100)\<lparr>cc := set_commit ''k'' [1] 105 NewInMemoryCache,
     committed := [(''k'', first_item)]\<rparr>"

definition after_miss :: cc_sys where
  "after_miss = before_get\<lparr>cc := set_commit ''k'' [7] 0 (cc before_get), cc_now := 200,
     committed := (''k'', second_item) # committed before_get, calls := 1,
     answers := [(0, ''k'', None, 200)]\<rparr>"

definition spurious_states :: "cc_sys list" where
  "spurious_states =
    [fresh_cache_sys 100,
     (fresh_cache_sys 100)\<lparr>jobs := {#Setting ''k'' [1] 105#}\<rparr>,
     before_get,
     before_get\<lparr>jobs := {#Read_entry 0 ''k'' (Some first_item)#}, calls := 1\<rparr>,
     before_get\<lparr>jobs := {#Setting ''k'' [7] 0, Read_entry 0 ''k'' (Some first_item)#}, calls := 1\<rparr>,
     after_miss\<lparr>cc_now := 100, jobs := {#Read_entry 0 ''k'' (Some first_item)#}, answers := []\<rparr>,
     after_miss\<lparr>jobs := {#Read_entry 0 ''k'' (Some first_item)#}, answers := []\<rparr>,
     after_miss\<lparr>jobs := {#Deleting 0 ''k'' 105#}, answers := []\<rparr>,
     after_miss]"

lemma spurious_chain: "list_all (\<lambda>(x, y). cc_next x y) (zip spurious_states (tl spurious_states))"
proof -
  let ?s0 = "fresh_cache_sys 100"
  let ?s1 = "?s0\<lparr>jobs := {#Setting ''k'' [1] 105#}\<rparr>"
  let ?s3 = "before_get\<lparr>jobs := {#Read_entry 0 ''k'' (Some first_item)#}, calls := 1\<rparr>"
  let ?s4 = "before_get\<lparr>jobs := {#Setting ''k'' [7] 0, Read_entry 0 ''k'' (Some first_item)#}, calls := 1\<rparr>"
  let ?s5 = "after_miss\<lparr>cc_now := 100, jobs := {#Read_entry 0 ''k'' (Some first_item)#}, answers := []\<rparr>"
  let ?s6 = "after_miss\<lparr>jobs := {#Read_entry 0 ''k'' (Some first_item)#}, answers := []\<rparr>"
  let ?s7 = "after_miss\<lparr>jobs := {#Deleting 0 ''k'' 105#}, answers := []\<rparr>"
  note defs = before_get_def after_miss_def fresh_cache_sys_def set_commit_def NewInMemoryCache_def
    first_item_def second_item_def
  have next_if: "cc_step l x y \<Longrightarrow> cc_next x y" for l x y by (auto simp: cc_next_def)
  have "cc_next ?s0 ?s1"
    using cc_step.set_prepare [of ?s0 "''k''" "[1]" 5] by (intro next_if) (simp add: defs deadline_def)
  moreover have "cc_next ?s1 before_get"
    using cc_step.set_store [of "''k''" "[1]" 105 ?s1] by (intro next_if) (simp add: defs)
  moreover have "cc_next before_get ?s3"
    using cc_step.get_read [of before_get "''k''"] by (intro next_if) (simp add: defs)
  moreover have "cc_next ?s3 ?s4"
    using cc_step.set_prepare [of ?s3 "''k''" "[7]" 0] by (intro next_if) (simp add: defs deadline_def)
  moreover have "cc_next ?s4 ?s5"
    using cc_step.set_store [of "''k''" "[7]" 0 ?s4] by (intro next_if) (simp add: defs)
  moreover have "cc_next ?s5 ?s6"
    using cc_step.elapse [of 100 ?s5] by (intro next_if) (simp add: defs)
  moreover have "cc_next ?s6 ?s7"
    using cc_step.get_expired [of 0 "''k''" first_item ?s6] by (intro next_if) (simp add: defs has_expired_def)
  moreover have "cc_next ?s7 after_miss"
    using cc_step.get_delete [of 0 "''k''" 105 ?s7] by (intro next_if) (simp add: defs delete_if_same_def)
  ultimately show ?thesis
    by (simp only: spurious_states_def list.sel list.case zip_Cons_Cons zip.simps list.pred_inject prod.case simp_thms)
qed

lemma spurious_steps: "j < 8 \<Longrightarrow> cc_next (spurious_states ! j) (spurious_states ! Suc j)"
proof -
  assume "j < 8"
  moreover have len: "length spurious_states = 9" by (simp add: spurious_states_def)
  ultimately have "zip spurious_states (tl spurious_states) ! j = (spurious_states ! j, spurious_states ! Suc j)"
    "j < length (zip spurious_states (tl spurious_states))" by (simp_all add: nth_tl)
  with spurious_chain show ?thesis unfolding list_all_length by fastforce
qed

lemma spurious_run: "cc_run 8 ((!) spurious_states)"
  by (simp add: cc_run_def spurious_steps)

lemma spurious_init: "cc_init 1 (spurious_states ! 0)"
  by (simp add: cc_init_def spurious_states_def fresh_cache_sys_def)

abbreviation seen_path :: "string \<Rightarrow> cc_sys \<Rightarrow> cc_sys \<Rightarrow> bool" where
  "seen_path k \<equiv> (\<lambda>x y. cc_next x y \<and> visible y k \<noteq> None)\<^sup>*\<^sup>*"

lemma spurious_visible: "2 \<le> j \<Longrightarrow> j \<le> 8 \<Longrightarrow> visible (spurious_states ! j) ''k'' \<noteq> None"
proof -
  assume j: "2 \<le> j" "j \<le> 8"
  have "list_all (\<lambda>s. visible s ''k'' \<noteq> None) (drop 2 spurious_states)" "length spurious_states = 9"
    by (simp_all add: visible_def live_def spurious_states_def before_get_def after_miss_def
        fresh_cache_sys_def set_commit_def NewInMemoryCache_def has_expired_def)
  then have "k < 7 \<Longrightarrow> visible (spurious_states ! (2 + k)) ''k'' \<noteq> None" for k
    by (simp add: list_all_length)
  moreover have "j - 2 < 7" "2 + (j - 2) = j" using j by simp_all
  ultimately show ?thesis by metis
qed

lemma spurious_seen: "2 \<le> j \<Longrightarrow> j \<le> 8 \<Longrightarrow> seen_path ''k'' (spurious_states ! 2) (spurious_states ! j)"
proof (induction j rule: dec_induct)
  case base
  show ?case by (rule rtranclp.rtrancl_refl)
next
  case (step j)
  have "j < 8" "2 \<le> Suc j" using step by simp_all
  then have "cc_next (spurious_states ! j) (spurious_states ! Suc j) \<and> visible (spurious_states ! Suc j) ''k'' \<noteq> None"
    using spurious_steps spurious_visible step.prems by blast
  moreover have "seen_path ''k'' (spurious_states ! 2) (spurious_states ! j)" using step by simp
  ultimately show ?case by (rule rtranclp.rtrancl_into_rtrancl [rotated])
qed

lemma before_get_reachable: "reachable (cc_init 1) cc_next before_get"
proof -
  have "reachable (cc_init 1) cc_next (spurious_states ! 0)" using spurious_init by (rule reachable_init)
  then have "reachable (cc_init 1) cc_next (spurious_states ! 2)"
    using spurious_steps [of 0] spurious_steps [of 1] by (auto simp: numeral_2_eq_2 intro: reachable_step)
  then show ?thesis by (simp add: spurious_states_def)
qed

section \<open>Properties\<close>

text \<open>
  C11: every value \<open>Get\<close> answers was right at some moment of the call. Take any run and any answer given
  in it, by any call of \<open>Get\<close>, whatever else runs beside it, other calls for the same key included. There
  is a state of the run, not later than the answer, in which that very call is in progress and an
  observer would have been given the answer; or else the answer is a miss, the key has a live entry in
  that state, and that entry expires before the answer.
\<close>

theorem get_answers_linearise:
  assumes "cc_init c (run 0)" "cc_run n run" "(i, k, r, u) \<in> set (answers (run n))"
  shows "\<exists>j \<le> n. in_progress i k (run j) \<and> cc_now (run j) \<le> u
    \<and> (visible (run j) k = r \<or> r = None \<and> expires_by u k (run j))"
  using explained_run [OF assms(1,2)] assms(3) unfolding explained_def explains_def by blast

theorem get_answers_linearise_witness:
  "\<exists>j \<le> 8. in_progress 0 ''k'' (spurious_states ! j)
     \<and> (visible (spurious_states ! j) ''k'' = None \<or> expires_by 200 ''k'' (spurious_states ! j))"
proof -
  have "(0, ''k'', None, 200) \<in> set (answers (spurious_states ! 8))"
    by (simp add: spurious_states_def after_miss_def)
  from get_answers_linearise [OF spurious_init spurious_run this] show ?thesis by auto
qed

text \<open>
  C39: a miss may have no moment at which it was right. There is a run in which a key has a live value
  from beginning to end, and the one \<open>Get\<close> of it that begins and ends there answers a miss: the entry it
  read under the read lock was replaced by one that does not expire, and it looks at the clock only
  afterwards.
\<close>

theorem get_miss_spurious:
  "\<exists>s t. reachable (cc_init 1) cc_next s \<and> jobs s = {#} \<and> answers s = [] \<and> visible s ''k'' \<noteq> None
     \<and> seen_path ''k'' s t \<and> answers t = [(0, ''k'', None, cc_now t)]"
proof (intro exI conjI)
  show "reachable (cc_init 1) cc_next before_get" by (rule before_get_reachable)
  show "seen_path ''k'' before_get after_miss"
    using spurious_seen [of 8] by (simp add: spurious_states_def)
  show "visible before_get ''k'' \<noteq> None"
    using spurious_visible [of 2] by (simp add: spurious_states_def)
qed (simp_all add: before_get_def after_miss_def fresh_cache_sys_def)

end
