(* ===== verification/CacheHeap.thy ===== *)
theory CacheHeap
  imports Cache
begin

text \<open>
  The in-memory cache over a store of byte arrays. A \<open>[]byte\<close> is a slice: the address of an array, an
  offset and a length; slices of one array share its bytes, and callers write through those they have.
  \<open>Set\<close> and \<open>Get\<close> copy (\<open>make\<close> and \<open>copy\<close>), so that no array of the cache is ever reachable by a caller. The
  theory relates the operations on slices to those of \<open>Cache\<close> on values, whatever callers write.
\<close>

section \<open>Slices\<close>

record slice =
  arr :: nat
  off :: nat
  len :: nat

record heap =
  arrays :: "nat \<Rightarrow> bytes"
  fresh :: nat

definition slice_bytes :: "heap \<Rightarrow> slice \<Rightarrow> bytes" where
  "slice_bytes h s = take (len s) (drop (off s) (arrays h (arr s)))"

text \<open>Go's slices stay within their array.\<close>

definition valid_slice :: "heap \<Rightarrow> slice \<Rightarrow> bool" where
  "valid_slice h s \<longleftrightarrow> arr s < fresh h \<and> off s + len s \<le> length (arrays h (arr s))"

text \<open>A new array with the given contents, as a slice of its whole.\<close>

definition new_array :: "bytes \<Rightarrow> heap \<Rightarrow> slice \<times> heap" where
  "new_array bs h = (\<lparr>arr = fresh h, off = 0, len = length bs\<rparr>,
     h\<lparr>arrays := (arrays h)(fresh h := bs), fresh := fresh h + 1\<rparr>)"

text \<open>\<open>valCopy := make([]byte, len(value)); copy(valCopy, value)\<close>.\<close>

definition copy_slice :: "slice \<Rightarrow> heap \<Rightarrow> slice \<times> heap" where
  "copy_slice value h =
     (let (valCopy, h1) = new_array (replicate (len value) 0) h; src = slice_bytes h1 value
      in (valCopy, h1\<lparr>arrays := (arrays h1)(arr valCopy :=
            src @ drop (length src) (arrays h1 (arr valCopy)))\<rparr>))"

section \<open>Operations\<close>

record heap_item =
  hi_value :: slice
  hi_expiration :: int

type_synonym heap_cache = "(string \<times> heap_item) list"

definition Heap_Set ::
    "gerror option \<Rightarrow> int \<Rightarrow> string \<Rightarrow> slice \<Rightarrow> int \<Rightarrow> heap \<times> heap_cache \<Rightarrow> gerror option \<times> heap \<times> heap_cache" where
  "Heap_Set cerr now key value expiration s =
     (case s of (h, c) \<Rightarrow>
        (case cerr of
           Some e \<Rightarrow> (Some e, h, c)
         | None \<Rightarrow>
             (let exp = deadline now expiration; (valCopy, h') = copy_slice value h
              in (None, h', AList.update key \<lparr>hi_value = valCopy, hi_expiration = exp\<rparr> c))))"

definition heap_delete_if_same :: "string \<Rightarrow> int \<Rightarrow> heap_cache \<Rightarrow> heap_cache" where
  "heap_delete_if_same key exp c =
     (case map_of c key of
        None \<Rightarrow> c
      | Some it \<Rightarrow> if hi_expiration it = exp then AList.delete key c else c)"

definition Heap_Get ::
    "gerror option \<Rightarrow> int \<Rightarrow> string \<Rightarrow> heap \<times> heap_cache \<Rightarrow> (gerror + slice) \<times> heap \<times> heap_cache" where
  "Heap_Get cerr now key s =
     (case s of (h, c) \<Rightarrow>
        (case cerr of
           Some e \<Rightarrow> (Inl e, h, c)
         | None \<Rightarrow>
             (case map_of c key of
                None \<Rightarrow> (Inl ErrCacheMiss, h, c)
              | Some it \<Rightarrow>
                  if hi_expiration it \<noteq> 0 \<and> now > hi_expiration it
                  then (Inl ErrCacheMiss, h, heap_delete_if_same key (hi_expiration it) c)
                  else (case copy_slice (hi_value it) h of (valCopy, h') \<Rightarrow> (Inr valCopy, h', c)))))"

definition Heap_Delete ::
    "gerror option \<Rightarrow> string \<Rightarrow> heap \<times> heap_cache \<Rightarrow> gerror option \<times> heap \<times> heap_cache" where
  "Heap_Delete cerr key s =
     (case s of (h, c) \<Rightarrow>
        (case cerr of Some e \<Rightarrow> (Some e, h, c) | None \<Rightarrow> (None, h, AList.delete key c)))"

text \<open>The sweep reads deadlines and removes entries; it never touches an array.\<close>

definition heap_evict_scan :: "int \<Rightarrow> heap_cache \<Rightarrow> (string \<times> int) list" where
  "heap_evict_scan now c =
     map (\<lambda>(k, it). (k, hi_expiration it))
       (filter (\<lambda>(k, it). hi_expiration it \<noteq> 0 \<and> now > hi_expiration it) c)"

definition heap_evict_delete :: "(string \<times> int) list \<Rightarrow> heap_cache \<Rightarrow> heap_cache" where
  "heap_evict_delete expiredKeys c = fold (\<lambda>(k, exp). heap_delete_if_same k exp) expiredKeys c"

definition Heap_evictExpired :: "int \<Rightarrow> heap_cache \<Rightarrow> heap_cache" where
  "Heap_evictExpired now c =
     (let expiredKeys = heap_evict_scan now c
      in if length expiredKeys = 0 then c else heap_evict_delete expiredKeys c)"

text \<open>What is in the cache, by value.\<close>

definition by_value :: "heap \<Rightarrow> heap_cache \<Rightarrow> mcache" where
  "by_value h c = \<lparr>items = AList.map_ran (\<lambda>k it.
     \<lparr>item_value = slice_bytes h (hi_value it), item_expiration = hi_expiration it\<rparr>) c\<rparr>"

section \<open>Callers\<close>

text \<open>
  The state: the store, the cache, and the arrays callers have got hold of, their own and those of the
  slices \<open>Get\<close> returned. A caller may make an array, write any byte of one it has, and pass any slice
  of one to \<open>Set\<close>; the sweep may run between any two of these.
\<close>

record heap_sys =
  store :: heap
  cached :: heap_cache
  known :: "nat list"

datatype heap_event =
    Make_array bytes
  | Write_byte nat nat nat
  | Call_Set int string slice int
  | Call_Get int string "gerror + slice"
  | Call_Delete string
  | Sweep int

inductive heap_step :: "heap_event \<Rightarrow> heap_sys \<Rightarrow> heap_sys \<Rightarrow> bool" where
  make_array: "new_array bs (store s) = (sl, h) \<Longrightarrow>
    heap_step (Make_array bs) s (s\<lparr>store := h, known := arr sl # known s\<rparr>)"
| write_byte: "a \<in> set (known s) \<Longrightarrow>
    heap_step (Write_byte a i b) s
      (s\<lparr>store := (store s)\<lparr>arrays := (arrays (store s))(a := (arrays (store s) a)[i := b])\<rparr>\<rparr>)"
| call_set: "arr sl \<in> set (known s) \<Longrightarrow> valid_slice (store s) sl \<Longrightarrow>
    Heap_Set None now k sl d (store s, cached s) = (None, h, c) \<Longrightarrow>
    heap_step (Call_Set now k sl d) s (s\<lparr>store := h, cached := c\<rparr>)"
| call_get: "Heap_Get None now k (store s, cached s) = (r, h, c) \<Longrightarrow>
    heap_step (Call_Get now k r) s
      (s\<lparr>store := h, cached := c, known := (case r of Inl e \<Rightarrow> known s | Inr sl \<Rightarrow> arr sl # known s)\<rparr>)"
| call_delete: "Heap_Delete None k (store s, cached s) = (None, h, c) \<Longrightarrow>
    heap_step (Call_Delete k) s (s\<lparr>store := h, cached := c\<rparr>)"
| sweep: "heap_step (Sweep now) s (s\<lparr>cached := Heap_evictExpired now (cached s)\<rparr>)"

definition heap_next :: "heap_sys \<Rightarrow> heap_sys \<Rightarrow> bool" where
  "heap_next s t \<longleftrightarrow> (\<exists>ev. heap_step ev s t)"

definition heap_init :: "heap_sys \<Rightarrow> bool" where
  "heap_init s \<longleftrightarrow> cached s = [] \<and> known s = []"

definition view :: "heap_sys \<Rightarrow> mcache" where
  "view s = by_value (store s) (cached s)"

section \<open>Separation\<close>

text \<open>Every array in use is allocated, and no array of the cache is known to a caller.\<close>

definition separated :: "heap_sys \<Rightarrow> bool" where
  "separated s \<longleftrightarrow> list_all (\<lambda>a. a < fresh (store s)) (known s)
     \<and> list_all (\<lambda>(k, it). valid_slice (store s) (hi_value it) \<and> arr (hi_value it) \<notin> set (known s)) (cached s)"

lemma copy_slice_result:
  assumes "copy_slice value h = (sl, h')" "valid_slice h value"
  shows "arr sl = fresh h" "valid_slice h' sl" "fresh h' = fresh h + 1" "slice_bytes h' sl = slice_bytes h value"
    "\<And>a. a \<noteq> fresh h \<Longrightarrow> arrays h' a = arrays h a"
  using assms by (auto simp: copy_slice_def new_array_def slice_bytes_def valid_slice_def Let_def)

lemma slice_bytes_cong: "arrays h' (arr s) = arrays h (arr s) \<Longrightarrow> slice_bytes h' s = slice_bytes h s"
  by (simp add: slice_bytes_def)

lemma by_value_cong:
  assumes "list_all (\<lambda>(k, it). arrays h' (arr (hi_value it)) = arrays h (arr (hi_value it))) c"
  shows "by_value h' c = by_value h c"
  using assms by (auto simp: by_value_def AList.map_ran_def list_all_iff intro!: slice_bytes_cong)

lemma by_value_lookup:
  "map_of (items (by_value h c)) k = map_option (\<lambda>it.
     \<lparr>item_value = slice_bytes h (hi_value it), item_expiration = hi_expiration it\<rparr>) (map_of c k)"
  by (simp add: by_value_def map_ran_conv)

lemma by_value_delete: "by_value h (AList.delete k c) = by_value h c\<lparr>items := AList.delete k (items (by_value h c))\<rparr>"
  by (induction c) (auto simp: by_value_def)

lemma by_value_update:
  "by_value h (AList.update k it c) =
     set_commit k (slice_bytes h (hi_value it)) (hi_expiration it) (by_value h c)"
  by (induction c) (auto simp: by_value_def set_commit_def)

lemma by_value_delete_if_same:
  "by_value h (heap_delete_if_same k e c) = delete_if_same k e (by_value h c)"
  by (auto simp: heap_delete_if_same_def delete_if_same_def by_value_lookup by_value_delete split: option.split)

lemma by_value_evictExpired:
  "by_value h (Heap_evictExpired now c) = evictExpired now (by_value h c)"
proof -
  have "by_value h (heap_evict_delete l c) = evict_delete l (by_value h c)" for l
    by (induction l arbitrary: c)
      (auto simp: heap_evict_delete_def evict_delete_def by_value_delete_if_same)
  moreover have "evict_scan now (by_value h c) = heap_evict_scan now c"
    by (induction c)
      (auto simp: evict_scan_def heap_evict_scan_def by_value_def has_expired_def split: if_splits)
  ultimately show ?thesis by (simp add: Heap_evictExpired_def evictExpired_def Let_def)
qed

lemma cached_subset:
  "set (AList.delete k c) \<subseteq> set c" "set (heap_delete_if_same k e c) \<subseteq> set c"
  "set (AList.update k it c) \<subseteq> insert (k, it) (set c)"
proof -
  show "set (AList.delete k c) \<subseteq> set c" by (auto simp: AList.delete_eq)
  then show "set (heap_delete_if_same k e c) \<subseteq> set c"
    by (auto simp: heap_delete_if_same_def split: option.splits)
  show "set (AList.update k it c) \<subseteq> insert (k, it) (set c)"
    by (induction c) (auto split: if_splits)
qed

lemma evict_subset: "set (Heap_evictExpired now c) \<subseteq> set c"
proof -
  have "set (heap_evict_delete l c) \<subseteq> set c" for l
    unfolding heap_evict_delete_def
    by (induction l arbitrary: c) (auto dest!: subsetD intro: subsetD [OF cached_subset(2)])
  then show ?thesis by (simp add: Heap_evictExpired_def Let_def)
qed

text \<open>A store that differs at unallocated or caller-known arrays only gives the cache the same values.\<close>

definition same_arrays :: "heap \<Rightarrow> heap \<Rightarrow> nat set \<Rightarrow> bool" where
  "same_arrays h h' touched \<longleftrightarrow> fresh h \<le> fresh h' \<and>
     (\<forall>a. length (arrays h' a) = length (arrays h a) \<or> a \<ge> fresh h) \<and>
     (\<forall>a. a < fresh h \<longrightarrow> a \<notin> touched \<longrightarrow> arrays h' a = arrays h a)"

lemma same_arrays_valid: "same_arrays h h' A \<Longrightarrow> valid_slice h sl \<Longrightarrow> valid_slice h' sl"
  by (auto simp: same_arrays_def valid_slice_def) (metis leD order_less_le_trans)

lemma same_arrays_view:
  assumes "separated s" "same_arrays (store s) h' (set (known s))"
  shows "by_value h' (cached s) = view s"
  unfolding view_def
  using assms by (intro by_value_cong) (fastforce simp: separated_def same_arrays_def list_all_iff valid_slice_def)

lemma same_arrays_new: "new_array bs h = (sl, h') \<Longrightarrow> same_arrays h h' A \<and> arr sl = fresh h \<and> fresh h' = fresh h + 1"
  by (auto simp: new_array_def same_arrays_def)

lemma same_arrays_copy:
  "copy_slice value h = (sl, h') \<Longrightarrow> valid_slice h value \<Longrightarrow> same_arrays h h' A"
  using copy_slice_result by (fastforce simp: same_arrays_def)

lemma same_arrays_write:
  "same_arrays h (h\<lparr>arrays := (arrays h)(a := (arrays h a)[i := b])\<rparr>) A" if "a \<in> A"
  using that by (auto simp: same_arrays_def)

text \<open>Separation survives a change of store, of the known arrays and of the cache.\<close>

lemma separatedI:
  assumes "separated s" "same_arrays (store s) h (set (known s))"
    and "set c \<subseteq> set (cached s) \<union> {(k, it). valid_slice h (hi_value it) \<and> arr (hi_value it) \<notin> set (known s) \<union> N}"
    and "set K = set (known s) \<union> N" "\<forall>a \<in> N. fresh (store s) \<le> a \<and> a < fresh h"
  shows "separated \<lparr>store = h, cached = c, known = K\<rparr>"
proof -
  have "valid_slice h (hi_value it) \<and> arr (hi_value it) \<notin> set K" if "(k, it) \<in> set c" for k it
  proof (cases "(k, it) \<in> set (cached s)")
    case True
    with assms(1) have v: "valid_slice (store s) (hi_value it)" "arr (hi_value it) \<notin> set (known s)"
      by (auto simp: separated_def list_all_iff)
    then have "arr (hi_value it) \<notin> N" using assms(5) by (auto simp: valid_slice_def)
    with v assms(4) same_arrays_valid [OF assms(2)] show ?thesis by simp
  next
    case False
    with that assms(3,4) show ?thesis by auto
  qed
  moreover have "\<forall>a \<in> set K. a < fresh h"
    using assms(1,2,4,5) by (auto simp: separated_def same_arrays_def list_all_iff)
  ultimately show ?thesis by (auto simp: separated_def list_all_iff)
qed

text \<open>What each event does to the cache by value.\<close>

fun value_step :: "heap_event \<Rightarrow> heap_sys \<Rightarrow> heap_sys \<Rightarrow> bool" where
  "value_step (Make_array bs) s t = (view t = view s)"
| "value_step (Write_byte a i b) s t = (view t = view s)"
| "value_step (Call_Set now k sl d) s t =
     (view t = snd (Cache_Set None now k (slice_bytes (store s) sl) d (view s)))"
| "value_step (Call_Get now k r) s t =
     (view t = snd (Cache_Get None now k (view s))
      \<and> map_sum id (slice_bytes (store t)) r = fst (Cache_Get None now k (view s))
      \<and> (case r of Inl e \<Rightarrow> True | Inr sl \<Rightarrow> arr sl \<notin> set (known s) \<union> (\<lambda>(k, it). arr (hi_value it)) ` set (cached t)))"
| "value_step (Call_Delete k) s t = (view t = snd (Cache_Delete None k (view s)))"
| "value_step (Sweep now) s t = (view t = evictExpired now (view s))"

lemma heap_sys_update: "s\<lparr>store := h, cached := c, known := K\<rparr> = \<lparr>store = h, cached = c, known = K\<rparr>"
  for s :: heap_sys
  by (cases s) simp

lemma separated_Get:
  assumes "separated s" "Heap_Get None now k (store s, cached s) = (r, h, c)"
    and "t = s\<lparr>store := h, cached := c, known := (case r of Inl e \<Rightarrow> known s | Inr sl \<Rightarrow> arr sl # known s)\<rparr>"
  shows "separated t \<and> value_step (Call_Get now k r) s t"
proof (cases "map_of (cached s) k")
  case None
  then have "r = Inl ErrCacheMiss" "h = store s" "c = cached s" using assms(2) by (simp_all add: Heap_Get_def)
  then have "t = s" using assms(3) by simp
  with assms(1) None \<open>r = Inl ErrCacheMiss\<close> show ?thesis
    by (simp add: Cache_Get_def view_def by_value_lookup)
next
  case (Some it)
  then have mem: "(k, it) \<in> set (cached s)" by (rule map_of_SomeD)
  with assms(1) have valid: "valid_slice (store s) (hi_value it)" by (auto simp: separated_def list_all_iff)
  show ?thesis
  proof (cases "hi_expiration it \<noteq> 0 \<and> now > hi_expiration it")
    case True
    then have r: "r = Inl ErrCacheMiss" "h = store s" "c = heap_delete_if_same k (hi_expiration it) (cached s)"
      using assms(2) Some by (auto simp: Heap_Get_def)
    then have t: "t = \<lparr>store = store s, cached = c, known = known s\<rparr>" using assms(3) heap_sys_update by simp
    have "separated t"
      unfolding t using assms(1) cached_subset(2) [of k _ "cached s"] r
      by (intro separatedI [where s = s and N = "{}"]) (auto simp: same_arrays_def)
    with True Some r t show ?thesis
      by (auto simp: Cache_Get_def view_def by_value_lookup has_expired_def by_value_delete_if_same)
  next
    case False
    obtain sl h' where cp: "copy_slice (hi_value it) (store s) = (sl, h')" by (cases "copy_slice (hi_value it) (store s)")
    then have r: "r = Inr sl" "h = h'" "c = cached s"
      using assms(2) Some False by (auto simp: Heap_Get_def)
    then have t: "t = \<lparr>store = h, cached = cached s, known = arr sl # known s\<rparr>" using assms(3) heap_sys_update by simp
    note res = copy_slice_result [OF cp valid] and same = same_arrays_copy [OF cp valid, of "set (known s)"]
    have "separated t"
      unfolding t using assms(1) same res r by (intro separatedI [where s = s and N = "{arr sl}"]) auto
    moreover have "view t = view s"
      using same_arrays_view [OF assms(1) same] by (simp add: view_def t r)
    moreover have "arr sl \<notin> set (known s) \<union> (\<lambda>(k, it). arr (hi_value it)) ` set (cached t)"
      using assms(1) res(1) by (auto simp: separated_def list_all_iff valid_slice_def t)
    ultimately show ?thesis
      using False Some r t res by (auto simp: Cache_Get_def view_def by_value_lookup has_expired_def)
  qed
qed

lemma heap_step_separated:
  assumes "heap_step ev s t" "separated s"
  shows "separated t \<and> value_step ev s t"
  using assms(1)
proof cases
  case (make_array bs sl h)
  note same = same_arrays_new [OF make_array(3), of "set (known s)"]
  have t: "t = \<lparr>store = h, cached = cached s, known = arr sl # known s\<rparr>"
    using make_array(2) by (cases s) simp
  have "separated t"
    unfolding t using assms(2) same by (intro separatedI [where s = s and N = "{arr sl}"]) auto
  with make_array(1) same_arrays_view [OF assms(2), of h] same t show ?thesis by (simp add: view_def)
next
  case (write_byte a i b)
  let ?h = "(store s)\<lparr>arrays := (arrays (store s))(a := (arrays (store s) a)[i := b])\<rparr>"
  note same = same_arrays_write [OF write_byte(3), of "store s" i b]
  have t: "t = \<lparr>store = ?h, cached = cached s, known = known s\<rparr>" using write_byte(2) by (cases s) simp
  have "separated t"
    unfolding t using assms(2) same by (intro separatedI [where s = s and N = "{}"]) auto
  with write_byte(1) same_arrays_view [OF assms(2) same] t show ?thesis by (simp add: view_def)
next
  case (call_set sl now k d h c)
  obtain v h' where cp: "copy_slice sl (store s) = (v, h')" by (cases "copy_slice sl (store s)")
  then have hc: "h = h'" "c = AList.update k \<lparr>hi_value = v, hi_expiration = deadline now d\<rparr> (cached s)"
    using call_set(5) by (auto simp: Heap_Set_def Let_def)
  note res = copy_slice_result [OF cp call_set(4)] and same = same_arrays_copy [OF cp call_set(4), of "set (known s)"]
  have t: "t = \<lparr>store = h, cached = c, known = known s\<rparr>" using call_set(2) by (cases s) simp
  have "arr v \<notin> set (known s)" using assms(2) res(1) by (auto simp: separated_def list_all_iff)
  then have "separated t"
    unfolding t using assms(2) same res cached_subset(3) [of k _ "cached s"] hc
    by (intro separatedI [where s = s and N = "{}"]) fastforce+
  moreover have "view t = set_commit k (slice_bytes (store s) sl) (deadline now d) (view s)"
    using same_arrays_view [OF assms(2) same] res(4) by (simp add: view_def t hc by_value_update)
  ultimately show ?thesis by (simp add: call_set(1) Cache_Set_def)
next
  case (call_get now k r h c)
  from separated_Get [OF assms(2) call_get(3,2)] show ?thesis by (simp only: call_get(1))
next
  case (call_delete k h c)
  then have hc: "h = store s" "c = AList.delete k (cached s)" by (auto simp: Heap_Delete_def)
  have t: "t = \<lparr>store = h, cached = c, known = known s\<rparr>" using call_delete(2) by (cases s) simp
  have "separated t"
    unfolding t using assms(2) cached_subset(1) [of k "cached s"] hc
    by (intro separatedI [where s = s and N = "{}"]) (auto simp: same_arrays_def)
  then show ?thesis by (simp add: call_delete(1) t hc view_def by_value_delete Cache_Delete_def)
next
  case (sweep now)
  have t: "t = \<lparr>store = store s, cached = Heap_evictExpired now (cached s), known = known s\<rparr>"
    using sweep(2) by (cases s) simp
  have "separated t"
    unfolding t using assms(2) evict_subset [of now "cached s"]
    by (intro separatedI [where s = s and N = "{}"]) (auto simp: same_arrays_def)
  then show ?thesis by (simp add: sweep(1) t view_def by_value_evictExpired)
qed

interpretation heap_system: inductive_invariant heap_init heap_next separated
proof unfold_locales
  fix s t
  show "heap_init s \<Longrightarrow> separated s" by (simp add: heap_init_def separated_def)
  show "heap_next s t \<Longrightarrow> separated s \<Longrightarrow> separated t"
    by (auto simp: heap_next_def dest: heap_step_separated)
qed

section \<open>Properties\<close>

text \<open>
  C13: the cache is isolated from its callers. In any run in which callers write as they like to every
  array they have, those of the slices they passed to \<open>Set\<close> and got from \<open>Get\<close> included, no write
  changes what is cached; \<open>Set\<close> stores the bytes of the slice at the time of the call, \<open>Get\<close> returns the
  bytes stored, in an array that neither a caller nor the cache has, and each operation, the sweep
  included, is the one on values.
\<close>

theorem cache_isolated_from_callers:
  assumes "reachable heap_init heap_next s" "heap_step ev s t"
  shows "case ev of
      Make_array bs \<Rightarrow> view t = view s
    | Write_byte a i b \<Rightarrow> view t = view s
    | Call_Set now k sl d \<Rightarrow> view t = snd (Cache_Set None now k (slice_bytes (store s) sl) d (view s))
    | Call_Get now k r \<Rightarrow> view t = snd (Cache_Get None now k (view s))
        \<and> map_sum id (slice_bytes (store t)) r = fst (Cache_Get None now k (view s))
        \<and> (\<forall>sl. r = Inr sl \<longrightarrow> arr sl \<notin> set (known s) \<union> (\<lambda>(k, it). arr (hi_value it)) ` set (cached t))
    | Call_Delete k \<Rightarrow> view t = snd (Cache_Delete None k (view s))
    | Sweep now \<Rightarrow> view t = evictExpired now (view s)"
  using heap_step_separated [OF assms(2) heap_system.reachable_inv [OF assms(1)]]
  by (cases ev) (auto split: sum.splits)

text \<open>A caller makes an array, caches it and overwrites its first byte.\<close>

definition caller_start :: heap_sys where
  "caller_start = \<lparr>store = \<lparr>arrays = (\<lambda>a. []), fresh = 0\<rparr>, cached = [], known = []\<rparr>"

definition caller_wrote :: heap_sys where
  "caller_wrote = \<lparr>store = \<lparr>arrays = (\<lambda>a. [])(0 := [9, 2], 1 := [1, 2]), fresh = 2\<rparr>,
     cached = [(''k'', \<lparr>hi_value = \<lparr>arr = 1, off = 0, len = 2\<rparr>, hi_expiration = 0\<rparr>)], known = [0]\<rparr>"

lemma caller_wrote_reachable: "reachable heap_init heap_next caller_wrote"
proof -
  let ?s1 = "\<lparr>store = \<lparr>arrays = (\<lambda>a. [])(0 := [1, 2]), fresh = 1\<rparr>, cached = [], known = [0]\<rparr>"
  let ?s2 = "caller_wrote\<lparr>store := \<lparr>arrays = (\<lambda>a. [])(0 := [1, 2], 1 := [1, 2]), fresh = 2\<rparr>\<rparr>"
  have "reachable heap_init heap_next caller_start"
    by (rule reachable_init) (simp add: heap_init_def caller_start_def)
  moreover have "heap_step (Make_array [1, 2]) caller_start ?s1"
    using make_array [of "[1, 2]" caller_start] by (simp add: caller_start_def new_array_def)
  moreover have "heap_step (Call_Set 5 ''k'' \<lparr>arr = 0, off = 0, len = 2\<rparr> 0) ?s1 ?s2"
  proof -
    have "Heap_Set None 5 ''k'' \<lparr>arr = 0, off = 0, len = 2\<rparr> 0 (store ?s1, cached ?s1) = (None, store ?s2, cached ?s2)"
      by (simp add: Heap_Set_def copy_slice_def new_array_def slice_bytes_def deadline_def caller_wrote_def Let_def)
    from call_set [OF _ _ this] show ?thesis by (simp add: valid_slice_def caller_wrote_def)
  qed
  moreover have "heap_step (Write_byte 0 0 9) ?s2 caller_wrote"
    using write_byte [of 0 ?s2 0 9] by (simp add: caller_wrote_def fun_upd_twist)
  ultimately show ?thesis by (meson heap_next_def reachable_step)
qed

theorem cache_isolated_from_callers_witness:
  "\<exists>r h c. Heap_Get None 7 ''k'' (store caller_wrote, cached caller_wrote) = (Inr r, h, c)
     \<and> slice_bytes h r = [1, 2]"
proof -
  obtain r h c where g: "Heap_Get None 7 ''k'' (store caller_wrote, cached caller_wrote) = (r, h, c)"
    by (metis prod_cases3)
  from cache_isolated_from_callers [OF caller_wrote_reachable call_get [OF g]]
  have "map_sum id (slice_bytes h) r = Inr [1, 2]"
    by (simp add: caller_wrote_def view_def by_value_def Cache_Get_def has_expired_def slice_bytes_def)
  with g show ?thesis by (cases r) auto
qed

end
