(* ===== verification/CacheBackends.thy ===== *)
theory CacheBackends
  imports Cache
begin

text \<open>
  The two implementations of the \<open>Cache\<close> interface against each other. What is known of the Redis
  client is its documented behaviour while the server can be reached: a value set with an expiration is
  kept for that many whole milliseconds (at least one) after the server's millisecond of the command,
  one set without is kept for ever, a missing key is \<open>redis.Nil\<close>. The in-memory cache counts
  nanoseconds, so the two need not expire an entry at the same instant; what is shown is how far apart
  they can be. A negative expiration has a meaning of its own in Redis and is left out.
\<close>

section \<open>The client\<close>

definition ms :: "int \<Rightarrow> int" where
  "ms t = t div 1000000"

text \<open>The expiration sent for a positive duration: truncated to milliseconds, at least one.\<close>

definition expiry_ms :: "int \<Rightarrow> int" where
  "expiry_ms d = max 1 (ms d)"

text \<open>The client's commands at a time; \<open>data\<close> is what the server holds.\<close>

record 'st redis_client =
  client_set :: "int \<Rightarrow> 'st \<Rightarrow> string \<Rightarrow> bytes \<Rightarrow> int \<Rightarrow> gerror option \<times> 'st"
  client_get :: "int \<Rightarrow> 'st \<Rightarrow> string \<Rightarrow> gerror + bytes"
  client_del :: "int \<Rightarrow> 'st \<Rightarrow> string \<Rightarrow> gerror option \<times> 'st"

record 'st RedisCache =
  client :: "'st redis_client"

definition NewRedisCache :: "'st redis_client \<Rightarrow> 'st RedisCache" where
  "NewRedisCache cl = \<lparr>client = cl\<rparr>"

type_synonym redis_data = "string \<Rightarrow> (bytes \<times> int option) option"

definition redis_law :: "gerror \<Rightarrow> 'st redis_client \<Rightarrow> ('st \<Rightarrow> redis_data) \<Rightarrow> bool" where
  "redis_law redis_nil cl data \<longleftrightarrow>
     (\<forall>t st k v d. 0 \<le> d \<longrightarrow>
        fst (client_set cl t st k v d) = None \<and>
        data (snd (client_set cl t st k v d))
          = (data st)(k \<mapsto> (v, if d = 0 then None else Some (ms t + expiry_ms d)))) \<and>
     (\<forall>t st k. client_get cl t st k = (case data st k of
            None \<Rightarrow> Inl redis_nil
          | Some (v, None) \<Rightarrow> Inr v
          | Some (v, Some until) \<Rightarrow> if ms t \<le> until then Inr v else Inl redis_nil)) \<and>
     (\<forall>t st k. fst (client_del cl t st k) = None \<and> data (snd (client_del cl t st k)) = (data st)(k := None))"

section \<open>A sequence of operations\<close>

fun redis_op :: "'st RedisCache \<Rightarrow> int \<times> (string, bytes) cache_op \<Rightarrow> 'st \<Rightarrow> 'st" where
  "redis_op c (t, OSet k v d) st = snd (Redis_Set (client_set (client c) t) k v d st)"
| "redis_op c (t, OGet k) st = st"
| "redis_op c (t, ODelete k) st = snd (Redis_Delete (client_del (client c) t) k st)"
| "redis_op c (t, OSweep) st = st"

fun no_negative_ttl :: "int \<times> (string, bytes) cache_op \<Rightarrow> bool" where
  "no_negative_ttl (t, OSet k v d) = (0 \<le> d)"
| "no_negative_ttl (t, y) = True"

text \<open>
  What the server holds beside the timed map the in-memory cache refines: the same keys and values, with
  deadlines that come from the same \<open>Set\<close>, one of the operations in \<open>S\<close>.
\<close>

definition entry_beside ::
    "(int \<times> (string, bytes) cache_op) set \<Rightarrow> string \<Rightarrow> (bytes \<times> int option) option \<Rightarrow> (bytes \<times> int option) option \<Rightarrow> bool" where
  "entry_beside S k r e \<longleftrightarrow> (case e of
      None \<Rightarrow> r = None
    | Some (v, None) \<Rightarrow> r = Some (v, None)
    | Some (v, Some u) \<Rightarrow> \<exists>t d. (t, OSet k v d) \<in> S \<and> 0 < d \<and> u = t + d
        \<and> r = Some (v, Some (ms t + expiry_ms d)))"

definition beside ::
    "(int \<times> (string, bytes) cache_op) set \<Rightarrow> redis_data \<Rightarrow> (string, bytes) timed_map \<Rightarrow> bool" where
  "beside S rd tm \<longleftrightarrow> (\<forall>k. entry_beside S k (rd k) (tm k))"

lemma beside_empty: "beside S Map.empty Map.empty"
  by (simp add: beside_def entry_beside_def)

lemma beside_update: "beside S rd tm \<Longrightarrow> entry_beside S k r e \<Longrightarrow> beside S (rd(k := r)) (tm(k := e))"
  by (simp add: beside_def)

lemma redis_op_beside:
  assumes "redis_law redis_nil cl data" "no_negative_ttl x" "x \<in> S" "beside S (data st) tm"
  shows "beside S (data (redis_op (NewRedisCache cl) x st)) (timed_op x tm)"
proof -
  obtain t y where x: "x = (t, y)" by (cases x)
  show ?thesis
  proof (cases y)
    case (OSet k v d)
    with assms(2) x have d: "0 \<le> d" by simp
    then have set: "fst (client_set cl t st k v d) = None" "data (snd (client_set cl t st k v d))
        = (data st)(k \<mapsto> (v, if d = 0 then None else Some (ms t + expiry_ms d)))"
      using assms(1) by (simp_all add: redis_law_def)
    have "data (redis_op (NewRedisCache cl) x st) = (data st)(k \<mapsto> (v, if d = 0 then None else Some (ms t + expiry_ms d)))"
      using set x OSet by (cases "client_set cl t st k v d") (auto simp: Redis_Set_def NewRedisCache_def)
    moreover have "entry_beside S k (Some (v, if d = 0 then None else Some (ms t + expiry_ms d)))
        (Some (v, if d = 0 then None else Some (t + d)))"
    proof (cases "d = 0")
      case False
      with assms(3) x OSet d have "(t, OSet k v d) \<in> S" "0 < d" by simp_all
      then show ?thesis using False unfolding entry_beside_def by auto
    qed (simp add: entry_beside_def)
    ultimately show ?thesis using beside_update [OF assms(4)] x OSet by simp
  next
    case (ODelete k)
    have del: "fst (client_del cl t st k) = None" "data (snd (client_del cl t st k)) = (data st)(k := None)"
      using assms(1) by (simp_all add: redis_law_def)
    then have "data (redis_op (NewRedisCache cl) x st) = (data st)(k := None)"
      using x ODelete by (cases "client_del cl t st k") (auto simp: Redis_Delete_def NewRedisCache_def)
    with beside_update [OF assms(4), of k None None] x ODelete show ?thesis by (simp add: entry_beside_def)
  qed (use assms(4) x in simp_all)
qed

lemma redis_run_beside:
  assumes "redis_law redis_nil cl data" "list_all no_negative_ttl xs" "set xs \<subseteq> S" "beside S (data st) tm"
  shows "beside S (data (fold (redis_op (NewRedisCache cl)) xs st)) (fold timed_op xs tm)"
  using assms(2-4)
  by (induction xs arbitrary: st tm) (auto simp: redis_op_beside [OF assms(1)])

section \<open>Two clocks\<close>

text \<open>An entry that only one of them still has is within two milliseconds of its deadline.\<close>

lemma deadlines_close:
  assumes "0 < d" "(now \<le> t + d) \<noteq> (ms now \<le> ms t + expiry_ms d)"
  shows "\<bar>now - (t + d)\<bar> < 2000000"
  using assms by (auto simp: ms_def expiry_ms_def max_def split: if_splits)

lemma deadlines_same:
  assumes "0 < d" "t mod 1000000 = 0" "d mod 1000000 = 0" "now mod 1000000 = 0"
  shows "now \<le> t + d \<longleftrightarrow> ms now \<le> ms t + expiry_ms d"
proof -
  obtain a b c where "t = 1000000 * a" "d = 1000000 * b" "now = 1000000 * c"
    using assms(2-4) by (metis dvdE mod_0_imp_dvd)
  moreover from this assms(1) have "0 < b" by simp
  moreover have "1000000 * c \<le> 1000000 * a + 1000000 * b \<longleftrightarrow> c \<le> a + b" by (rule iffI) linarith+
  ultimately show ?thesis by (simp add: ms_def expiry_ms_def max_def)
qed

lemma either_value:
  "m \<noteq> r \<Longrightarrow> {if r then x else y, if m then x else y} = {x, y}"
  by (cases m) auto

definition whole_ms :: "int \<Rightarrow> bool" where
  "whole_ms t \<longleftrightarrow> t mod 1000000 = 0"

fun whole_ms_op :: "int \<times> (string, bytes) cache_op \<Rightarrow> bool" where
  "whole_ms_op (t, OSet k v d) = (whole_ms t \<and> whole_ms d)"
| "whole_ms_op (t, y) = True"

lemma redis_get:
  assumes "redis_law redis_nil cl data"
  shows "Redis_Get redis_nil (client_get (client (NewRedisCache cl)) now) k st =
    (case data st k of
       None \<Rightarrow> Inl ErrCacheMiss
     | Some (v, None) \<Rightarrow> Inr v
     | Some (v, Some until) \<Rightarrow> if ms now \<le> until then Inr v else Inl ErrCacheMiss)"
  using assms by (auto simp: redis_law_def Redis_Get_def NewRedisCache_def split: option.split)

section \<open>Properties\<close>

text \<open>
  C26: the two backends agree up to the resolution of Redis's clock. Take a Redis client whose commands
  do not fail and any sequence of sets, gets, deletes and sweeps at non-decreasing times, without
  negative expirations. Then \<open>Get\<close> answers the same from the in-memory cache and from Redis, the same
  value or \<open>ErrCacheMiss\<close> (which hides what the client reports for a missing key), unless the key was set
  with an expiration whose end is less than two milliseconds away, in which case one of them may answer
  its value and the other a miss; and if the times and expirations are whole milliseconds, always.
\<close>

theorem backends_agree:
  assumes "redis_law redis_nil cl data" "data st = Map.empty"
    and "sorted (map fst xs)" "list_all sane_mem_op xs" "list_all no_negative_ttl xs"
    and "\<forall>x \<in> set xs. fst x \<le> now"
  shows "let R = Redis_Get redis_nil (client_get (client (NewRedisCache cl)) now) k (fold (redis_op (NewRedisCache cl)) xs st);
             M = fst (Cache_Get None now k (fold mem_op xs NewInMemoryCache))
    in (R = M \<or> (\<exists>t v d. (t, OSet k v d) \<in> set xs \<and> 0 < d \<and> \<bar>now - (t + d)\<bar> < 2000000
                   \<and> {R, M} = {Inr v, Inl ErrCacheMiss}))
      \<and> (list_all whole_ms_op xs \<and> whole_ms now \<longrightarrow> R = M)"
proof -
  let ?rd = "data (fold (redis_op (NewRedisCache cl)) xs st)" and ?tm = "fold timed_op xs Map.empty"
  have beside: "beside (set xs) ?rd ?tm"
    using redis_run_beside [OF assms(1,5) order.refl, of st Map.empty] beside_empty by (simp add: assms(2))
  then have entry: "entry_beside (set xs) k (?rd k) (?tm k)" by (simp add: beside_def)
  have M: "fst (Cache_Get None now k (fold mem_op xs NewInMemoryCache)) =
      (case timed_lookup ?tm now k of None \<Rightarrow> Inl ErrCacheMiss | Some v \<Rightarrow> Inr v)"
    using mem_refines [OF assms(3,4,6)] by simp
  show ?thesis
  proof (cases "?tm k")
    case None
    with entry have "?rd k = None" by (simp add: entry_beside_def)
    with None show ?thesis by (simp add: redis_get [OF assms(1)] M timed_lookup_def)
  next
    case (Some vu)
    obtain v u where vu: "vu = (v, u)" by (cases vu)
    show ?thesis
    proof (cases u)
      case None
      with entry Some vu have "?rd k = Some (v, None)" by (simp add: entry_beside_def)
      with None Some vu show ?thesis by (simp add: redis_get [OF assms(1)] M timed_lookup_def)
    next
      case (Some u')
      with entry \<open>?tm k = Some vu\<close> vu obtain t d where d: "(t, OSet k v d) \<in> set xs" "0 < d" "u' = t + d"
        "?rd k = Some (v, Some (ms t + expiry_ms d))" by (auto simp: entry_beside_def)
      let ?r = "ms now \<le> ms t + expiry_ms d" and ?m = "now \<le> t + d"
      have vals: "Redis_Get redis_nil (client_get (client (NewRedisCache cl)) now) k (fold (redis_op (NewRedisCache cl)) xs st)
          = (if ?r then Inr v else Inl ErrCacheMiss)"
        "fst (Cache_Get None now k (fold mem_op xs NewInMemoryCache)) = (if ?m then Inr v else Inl ErrCacheMiss)"
        using Some \<open>?tm k = Some vu\<close> vu d(3,4) by (simp_all add: redis_get [OF assms(1)] M timed_lookup_def)
      have whole: "?m = ?r" if "list_all whole_ms_op xs" "whole_ms now"
      proof -
        have "whole_ms_op (t, OSet k v d)" using that(1) d(1) unfolding list_all_iff by blast
        with that(2) show ?thesis by (intro deadlines_same [OF d(2)]) (simp_all add: whole_ms_def)
      qed
      have close: "\<bar>now - (t + d)\<bar> < 2000000" if "?m \<noteq> ?r" by (rule deadlines_close [OF d(2) that])
      show ?thesis
      proof (cases "?m = ?r")
        case False
        note sep = close [OF False] either_value [OF False, of "Inr v" "Inl ErrCacheMiss"]
        show ?thesis unfolding vals Let_def using False whole d(1,2) sep by blast
      qed (simp add: vals)
    qed
  qed
qed

text \<open>A server that is such a map, and an entry near its deadline that only Redis still has.\<close>

definition ideal_client :: "gerror \<Rightarrow> redis_data redis_client" where
  "ideal_client redis_nil = \<lparr>
     client_set = (\<lambda>t st k v d. (None, st(k \<mapsto> (v, if d = 0 then None else Some (ms t + expiry_ms d))))),
     client_get = (\<lambda>t st k. case st k of
        None \<Rightarrow> Inl redis_nil
      | Some (v, None) \<Rightarrow> Inr v
      | Some (v, Some until) \<Rightarrow> if ms t \<le> until then Inr v else Inl redis_nil),
     client_del = (\<lambda>t st k. (None, st(k := None)))\<rparr>"

definition near_deadline :: "(int \<times> (string, bytes) cache_op) list" where
  "near_deadline = [((2 ^ 64) * 1000000, OSet ''k'' [1] 500)]"

theorem backends_agree_witness:
  "let n = Sentinel ''redis: nil'';
       R = Redis_Get n (client_get (client (NewRedisCache (ideal_client n))) (2 ^ 64 * 1000000 + 1000000)) ''k''
         (fold (redis_op (NewRedisCache (ideal_client n))) near_deadline Map.empty);
       M = fst (Cache_Get None (2 ^ 64 * 1000000 + 1000000) ''k'' (fold mem_op near_deadline NewInMemoryCache))
   in R \<noteq> M \<and> {R, M} = {Inr [1], Inl ErrCacheMiss}"
proof -
  let ?now = "2 ^ 64 * 1000000 + 1000000 :: int" and ?n = "Sentinel ''redis: nil''"
  let ?R = "Redis_Get ?n (client_get (client (NewRedisCache (ideal_client ?n))) ?now) ''k''
         (fold (redis_op (NewRedisCache (ideal_client ?n))) near_deadline Map.empty)"
  let ?M = "fst (Cache_Get None ?now ''k'' (fold mem_op near_deadline NewInMemoryCache))"
  have "redis_law n (ideal_client n) (\<lambda>m. m)" for n by (auto simp: redis_law_def ideal_client_def)
  from backends_agree [OF this, of Map.empty near_deadline ?now ?n "''k''"]
  have "?R = ?M \<or> (\<exists>t v d. (t, OSet ''k'' v d) \<in> set near_deadline \<and> {?R, ?M} = {Inr v, Inl ErrCacheMiss})"
    by (auto simp: near_deadline_def sane_clock_def Let_def)
  moreover have "?R \<noteq> ?M"
    by (simp add: near_deadline_def ideal_client_def NewRedisCache_def Redis_Set_def Redis_Get_def ms_def expiry_ms_def
        Cache_Set_def Cache_Get_def set_commit_def deadline_def has_expired_def NewInMemoryCache_def)
  ultimately show ?thesis by (auto simp: near_deadline_def Let_def)
qed

end
