(* ===== verification/Resilience.thy ===== *)
theory Resilience
  imports RetrySpec BreakerSpec Result Cache
begin

text \<open>
  The packages put together, as the programs under \<open>simulation\<close> do (\<open>chaos_full_system_test.go\<close>): a
  fetch reads a cache, on a miss calls a service through a circuit breaker under \<open>retry.DoWithValue\<close>,
  wraps what comes back into a \<open>Result\<close> and, if it is a value, caches it. The service is a parameter:
  from the attempt and the time it is called it yields its outcome and how long it takes.
\<close>

section \<open>Definitions\<close>

type_synonym 'v service = "nat \<Rightarrow> int \<Rightarrow> (gerror + 'v) outcome \<times> nat"

text \<open>The error of a service call, as the function given to \<open>ExecuteContext\<close> returns it.\<close>

fun service_error :: "gerror + 'v \<Rightarrow> gerror option" where
  "service_error (Inl e) = Some e"
| "service_error (Inr v) = None"

definition admitted :: "context_t \<Rightarrow> int \<Rightarrow> breaker \<Rightarrow> bool" where
  "admitted ctx now b =
     (case fst (begin_execute now (ctx_err ctx now) b) of Returns (Admitted _) \<Rightarrow> True | _ \<Rightarrow> False)"

text \<open>
  The closure given to \<open>DoWithValue\<close>. It captures the breaker; a ghost list records the times at
  which the service was really called. The variable \<open>val\<close> is assigned only by a successful call.
\<close>

definition guarded_attempt ::
    "'v \<Rightarrow> context_t \<Rightarrow> 'v service \<Rightarrow> nat \<Rightarrow> int \<Rightarrow> breaker \<times> int list
     \<Rightarrow> ('v \<times> gerror option) outcome \<times> nat \<times> breaker \<times> int list" where
  "guarded_attempt zero ctx service attempt now s =
     (case s of (b, served) \<Rightarrow>
      case service attempt now of (out, dur) \<Rightarrow>
      case ExecuteContext (Some ctx) now (\<lambda>t. (map_outcome service_error out, t + int dur)) b of (res, b') \<Rightarrow>
        (if admitted ctx now b
         then (map_outcome (\<lambda>err. (case out of Returns (Inr v) \<Rightarrow> v | _ \<Rightarrow> zero, err)) res,
               dur, b', served @ [now])
         else (map_outcome (\<lambda>err. (zero, err)) res, 0, b', served)))"

text \<open>The part of a loop's environment that is not the closure.\<close>

record select_oracle =
  both_ready :: "nat \<Rightarrow> bool"
  draws :: "nat \<Rightarrow> int \<Rightarrow> int option"
  out_of_range :: "int \<Rightarrow> int"

definition guarded_env ::
    "'v \<Rightarrow> context_t \<Rightarrow> 'v service \<Rightarrow> select_oracle \<Rightarrow> (breaker \<times> int list, 'v \<times> gerror option) rt_env" where
  "guarded_env zero ctx service orc = \<lparr>rt_ctx = ctx, fn_call = guarded_attempt zero ctx service,
     ctx_wins = both_ready orc, rt_draw = draws orc, rt_oor = out_of_range orc\<rparr>"

text \<open>\<open>result.Of(retry.DoWithValue(...))\<close>, with the time at the end, the breaker and the service calls.\<close>

definition resilient_call ::
    "'v \<Rightarrow> context_t \<Rightarrow> 'v service \<Rightarrow> select_oracle \<Rightarrow> (rt_config \<Rightarrow> rt_config) option list \<Rightarrow> int \<Rightarrow> breaker
     \<Rightarrow> 'v Result outcome \<times> int \<times> breaker \<times> int list" where
  "resilient_call zero ctx service orc opts now b =
     (case DoWithValue zero (guarded_env zero ctx service orc) now opts (b, []) of
        (out, tr, u, b', served) \<Rightarrow> (map_outcome (\<lambda>(v, err). Of zero v err) out, u, b', served))"

text \<open>The body of the function the simulation maps over its items, with the cache around the call.\<close>

definition fetch_item ::
    "bytes \<Rightarrow> int \<Rightarrow> string \<Rightarrow> context_t \<Rightarrow> bytes service \<Rightarrow> select_oracle \<Rightarrow> (rt_config \<Rightarrow> rt_config) option list
     \<Rightarrow> int \<Rightarrow> mcache \<times> breaker \<Rightarrow> (bytes \<times> gerror option) outcome \<times> int \<times> (mcache \<times> breaker) \<times> int list" where
  "fetch_item hit ttl key ctx service orc opts now s =
     (case s of (c, b) \<Rightarrow>
      case Cache_Get (ctx_err ctx now) now key c of
        (Inr _, c') \<Rightarrow> (Returns (hit, None), now, (c', b), [])
      | (Inl _, c') \<Rightarrow>
          (case resilient_call [] ctx service orc opts now b of
             (Panics v, u, b', served) \<Rightarrow> (Panics v, u, (c', b'), served)
           | (Returns res, u, b', served) \<Rightarrow>
               if IsOk res
               then (let val = fst (Unwrap res)
                     in (Returns (val, None), u, (snd (Cache_Set (ctx_err ctx u) u key val ttl c'), b'), served))
               else (Returns ([], Result_Error res), u, (c', b'), served)))"

end
