(* ===== verification/ResilienceSpec.thy ===== *)
theory ResilienceSpec
  imports Resilience
begin

text \<open>
  Properties of the packages put together: what a retried call through a breaker can return, how often
  a failing service is really called, and when a fetch is served by the cache.
\<close>

section \<open>One attempt\<close>

lemma begin_execute_config: "config (snd (begin_execute now cerr b)) = config b"
proof -
  obtain st b1 where "currentState now b = (st, b1)" by fastforce
  moreover from this have "config b1 = config b" using config_kept(2) [of now b] by simp
  ultimately show ?thesis
    by (simp add: begin_execute_def split: option.split outcome.split cb_state.split)
qed

lemma end_execute_config: "config (snd (end_execute now cerr p out b)) = config b"
  by (simp add: end_execute_def Let_def split: outcome.split option.split)

lemma ExecuteContext_config: "config (snd (ExecuteContext c now fn b)) = config b"
proof -
  obtain a b1 where bg: "begin_execute now (ctx_err (the_ctx c) now) b = (a, b1)" by fastforce
  obtain out later where fn: "fn now = (out, later)" by fastforce
  have end_snd: "config (snd (case end_execute t e p out b1 of (Panics v, b2) \<Rightarrow> (Panics v, b2) | (Returns _, b2) \<Rightarrow> (out, b2)))
      = config b1" for t e p
    using end_execute_config [of t e p out b1] by (auto split: prod.split outcome.split)
  have "config b1 = config b" using begin_execute_config [of now "ctx_err (the_ctx c) now" b] bg by simp
  with bg fn end_snd show ?thesis
    by (subst ExecuteContext_the_ctx)
      (simp add: ExecuteContext_def split: outcome.split admission.split)
qed

lemma exec_admitted:
  assumes "quiet (config b)" "admitted ctx now b"
  shows "fst (ExecuteContext (Some ctx) now fn b) = fst (fn now)"
proof -
  obtain p b' where bg: "begin_execute now (ctx_err ctx now) b = (Returns (Admitted p), b')"
    using assms(2) by (cases "begin_execute now (ctx_err ctx now) b")
      (auto simp: admitted_def split: outcome.splits admission.splits)
  obtain out later where fn: "fn now = (out, later)" by fastforce
  obtain r b2 where en: "end_execute later (ctx_err ctx later) p out b' = (r, b2)" by fastforce
  have "quiet (config b')" using assms(1) begin_execute_config [of now "ctx_err ctx now" b] bg by simp
  from quiet_end_execute [OF this, of later "ctx_err ctx later" p out] en have "r = Returns ()" by simp
  with bg fn en show ?thesis by (simp add: ExecuteContext_def)
qed

lemma exec_rejected:
  assumes "quiet (config b)" "\<not> admitted ctx now b"
  shows "\<exists>e. fst (ExecuteContext (Some ctx) now fn b) = Returns (Some e)
    \<and> (e \<in> {ErrCircuitOpen, ErrTooManyRequests} \<or> ctx_err ctx now = Some e)"
  using assms quiet_currentState [OF assms(1), of now]
  by (auto simp: ExecuteContext_def admitted_def begin_execute_def split: prod.splits option.splits cb_state.splits if_splits)

lemma guarded_attempt_cases:
  assumes "guarded_attempt zero ctx service k now (b, served) = (res, d, b', served')" "quiet (config b)"
  obtains (called) "served' = served @ [now]" "config b' = config b"
      "map_outcome snd res = map_outcome service_error (fst (service k now))"
      "\<And>x. res = Returns (x, None) \<Longrightarrow> fst (service k now) = Returns (Inr x)"
  | (rejected) e where "served' = served" "config b' = config b" "res = Returns (zero, Some e)"
      "e \<in> {ErrCircuitOpen, ErrTooManyRequests} \<or> ctx_err ctx now = Some e"
proof -
  obtain out dur where sv: "service k now = (out, dur)" by fastforce
  let ?fn = "\<lambda>t. (map_outcome service_error out, t + int dur)"
  obtain r where ex: "ExecuteContext (Some ctx) now ?fn b = (r, b')"
    using assms(1) sv by (auto simp: guarded_attempt_def split: prod.splits if_splits)
  then have cfg: "config b' = config b" using ExecuteContext_config [of "Some ctx" now ?fn b] by simp
  show thesis
  proof (cases "admitted ctx now b")
    case True
    with exec_admitted [OF assms(2) this, of ?fn] ex have "r = map_outcome service_error out" by simp
    with assms(1) sv ex True cfg show thesis
      by (intro called) (auto simp: guarded_attempt_def outcome.map_comp comp_def
          split: outcome.splits sum.splits)
  next
    case False
    with exec_rejected [OF assms(2) this, of ?fn] ex obtain e where
      "r = Returns (Some e)" "e \<in> {ErrCircuitOpen, ErrTooManyRequests} \<or> ctx_err ctx now = Some e" by auto
    with assms(1) sv ex False cfg show thesis
      by (intro rejected [of e]) (auto simp: guarded_attempt_def)
  qed
qed

section \<open>What a retried call returns\<close>

text \<open>
  An error an attempt may end with: one of the breaker's two, its context's, or one the service returned
  when it was called. The client is told it as it is only if it is not retryable, or it is the error of
  a context that is done when the call ends; a retryable one is what the last attempt failed with, and
  is joined to \<open>ErrMaxAttemptsReached\<close>.
\<close>

definition possible :: "context_t \<Rightarrow> 'v service \<Rightarrow> int list \<Rightarrow> gerror \<Rightarrow> bool" where
  "possible ctx service served e \<longleftrightarrow> e \<in> {ErrCircuitOpen, ErrTooManyRequests}
     \<or> (\<exists>t. ctx_err ctx t = Some e) \<or> (\<exists>k. \<exists>t \<in> set served. fst (service k t) = Returns (Inl e))"

definition reported :: "(gerror \<Rightarrow> bool) \<Rightarrow> context_t \<Rightarrow> 'v service \<Rightarrow> int list \<Rightarrow> int \<Rightarrow> gerror \<Rightarrow> bool" where
  "reported p ctx service served u e \<longleftrightarrow> ctx_err ctx u = Some e
     \<or> (\<not> p e \<and> possible ctx service served e)
     \<or> (\<exists>d. p d \<and> possible ctx service served d \<and> e = Joined [ErrMaxAttemptsReached, d])"

lemma possible_mono: "possible ctx service l e \<Longrightarrow> set l \<subseteq> set l' \<Longrightarrow> possible ctx service l' e"
  by (auto simp: possible_def)

text \<open>What is known of the outcome of a loop that called the service at the times \<open>served\<close>.\<close>

definition genuine ::
    "(gerror \<Rightarrow> bool) \<Rightarrow> context_t \<Rightarrow> 'v service \<Rightarrow> int list \<Rightarrow> int \<Rightarrow> ('v \<times> gerror option) outcome \<Rightarrow> bool" where
  "genuine p ctx service served u out \<longleftrightarrow> (case out of
      Panics v \<Rightarrow> \<exists>k. \<exists>t \<in> set served. fst (service k t) = Panics v
    | Returns (x, None) \<Rightarrow> \<exists>k. served \<noteq> [] \<and> fst (service k (last served)) = Returns (Inr x)
    | Returns (x, Some e) \<Rightarrow> reported p ctx service served u e)"

lemma guarded_env_simps [simp]:
  "rt_ctx (guarded_env zero ctx service orc) = ctx"
  "fn_call (guarded_env zero ctx service orc) = guarded_attempt zero ctx service"
  by (simp_all add: guarded_env_def)

lemma service_error_iff [simp]:
  "service_error r = Some e \<longleftrightarrow> r = Inl e" "service_error r = None \<longleftrightarrow> (\<exists>v. r = Inr v)"
  "Some e = service_error r \<longleftrightarrow> r = Inl e" "None = service_error r \<longleftrightarrow> (\<exists>v. r = Inr v)"
  by (cases r; auto)+

lemma attempt_genuine:
  assumes "guarded_attempt zero ctx service k now (b, served) = (res, d, b', served')" "quiet (config b)"
  shows "((\<forall>x e. res \<noteq> Returns (x, Some e)) \<longrightarrow> genuine p ctx service served' u res) \<and> quiet (config b')
    \<and> (\<forall>x e. res = Returns (x, Some e) \<longrightarrow> possible ctx service served' e)
    \<and> (served' = served \<or> served' = served @ [now])"
proof (cases rule: guarded_attempt_cases [OF assms, case_names called rejected])
  case called
  then have "((\<forall>x e. res \<noteq> Returns (x, Some e)) \<longrightarrow> genuine p ctx service served' u res)
      \<and> (\<forall>x e. res = Returns (x, Some e) \<longrightarrow> possible ctx service served' e)"
    by (cases "fst (service k now)"; cases res)
      (auto simp: genuine_def possible_def split: option.split sum.splits)
  with called assms(2) show ?thesis by simp
next
  case (rejected e)
  with assms(2) show ?thesis by (auto simp: genuine_def possible_def)
qed

lemma wait_backoff_cause: "wait_backoff ctx tie now d = (Some c, u) \<Longrightarrow> \<exists>t. ctx_err ctx t = Some c"
  using wait_backoff_end by blast

lemma loop_genuine:
  assumes "RetryIf cfg = Some p" "quiet (config b)" "0 < MaxAttempts cfg"
  shows "\<exists>out tr u b' served. do_value_loop zero (guarded_env zero ctx service orc) cfg 0 now None (b, [])
      = (out, tr, u, b', served) \<and> genuine p ctx service served u out \<and> int (length served) \<le> MaxAttempts cfg"
proof -
  let ?E = "guarded_env zero ctx service orc"
  define I where "I k now l s \<longleftrightarrow> quiet (config (fst s)) \<and> int (length (snd s)) \<le> int k \<and> int k \<le> MaxAttempts cfg
      \<and> (case l of None \<Rightarrow> k = 0 | Some e \<Rightarrow> p e \<and> possible ctx service (snd s) e)"
    for k :: nat and now :: int and l and s :: "breaker \<times> int list"
  define Q where "Q out u s \<longleftrightarrow> genuine p ctx service (snd s) u out \<and> int (length (snd s)) \<le> MaxAttempts cfg"
    for out and u :: int and s :: "breaker \<times> int list"
  have step: "((\<forall>x e. res \<noteq> Returns (x, Some e)) \<longrightarrow> genuine p ctx service (snd s') u res)
      \<and> quiet (config (fst s')) \<and> int (length (snd s')) \<le> int (Suc k)
      \<and> (\<forall>x e. res = Returns (x, Some e) \<longrightarrow> possible ctx service (snd s') e)"
    if "I k now l s" "fn_call ?E k now s = (res, d, s')" for k now l s res d s' u
    using attempt_genuine [of zero ctx service k now "fst s" "snd s" res d "fst s'" "snd s'" p u] that
    by (auto simp: I_def)
  have "\<exists>out tr u s'. do_value_loop zero ?E cfg 0 now None (b, []) = (out, tr, u, s') \<and> Q out u s'"
  proof (rule value_loop_rule [where I = I and Q = Q, OF assms(1)], goal_cases)
    case 1
    show ?case using assms(2,3) by (simp add: I_def)
  next
    case (2 k now l s c)
    then show ?case by (auto simp: I_def Q_def genuine_def reported_def)
  next
    case (3 k now l s)
    with assms(3) show ?case by (auto simp: I_def Q_def genuine_def reported_def split: option.splits)
  next
    case (4 k now l s res d s')
    with step [OF 4(1,3), of "now + int d"] show ?case by (auto simp: Q_def)
  next
    case (5 k now l s x e d s')
    with step [OF 5(1,3)] show ?case by (auto simp: Q_def genuine_def reported_def)
  next
    case (6 k now l s x e d s' u c)
    with step [OF 6(1,3)] show ?case by (auto simp: Q_def genuine_def reported_def)
  next
    case (7 k now l s x e d s' u)
    with step [OF 7(1,4)] show ?case by (simp add: I_def)
  qed
  then show ?thesis by (auto simp: Q_def)
qed

section \<open>How often a failing service is called\<close>

text \<open>The failures a breaker still lets through before it opens.\<close>

definition room :: "breaker \<Rightarrow> nat" where
  "room b = (if state b = StateClosed then nat (FailureThreshold (config b) - failureCount b) else 0)"

text \<open>A breaker that is not half-open and, if open, stays so until the time \<open>limit\<close>.\<close>

definition shut_until :: "int \<Rightarrow> breaker \<Rightarrow> bool" where
  "shut_until limit b \<longleftrightarrow> cb_wf b \<and> quiet (config b) \<and> state b \<noteq> StateHalfOpen
     \<and> (state b = StateOpen \<longrightarrow> limit \<le> lastFailureTime b + Timeout (config b))"

lemma room_closed: "cb_wf b \<Longrightarrow> state b = StateClosed \<Longrightarrow> 0 < room b"
  by (simp add: room_def cb_wf_def counters_ok_def)

lemma attempt_open:
  assumes "shut_until limit b" "state b \<noteq> StateClosed" "now < limit" "ctx_err ctx now = None"
  shows "guarded_attempt zero ctx service k now (b, served) = (Returns (zero, Some ErrCircuitOpen), 0, b, served)"
proof -
  have "state b = StateOpen" using assms by (cases "state b") (simp_all add: shut_until_def)
  moreover from this have "begin_execute now None b = (Returns (Rejected ErrCircuitOpen), b)"
    using assms by (simp add: begin_execute_def currentState_def shut_until_def)
  ultimately show ?thesis
    using assms(4) by (simp add: guarded_attempt_def admitted_def ExecuteContext_def split: prod.split)
qed

lemma attempt_closed:
  assumes "shut_until limit b" "state b = StateClosed" "done_at ctx = None"
    and "service k now = (Returns (Inl e), d)" "\<not> errors_is e CtxCanceled"
    and "limit \<le> now + int d + Timeout (config b)"
  shows "\<exists>b'. guarded_attempt zero ctx service k now (b, served) = (Returns (zero, Some e), d, b', served @ [now])
    \<and> shut_until limit b' \<and> config b' = config b \<and> room b = Suc (room b')"
proof -
  have live: "ctx_err ctx t = None" for t using assms(3) by (simp add: ctx_err_def)
  let ?b = "snd (recordFailure (now + int d) b)"
  have fail: "end_execute (now + int d) None False (Returns (Some e)) b = recordFailure (now + int d) b"
    using assms(5) by (simp add: end_execute_def err_is_def)
  have wf: "cb_wf b" and q: "quiet (config b)" using assms(1) by (simp_all add: shut_until_def)
  have "fst (recordFailure (now + int d) b) = Returns ()"
    using quiet_end_execute [OF q, of "now + int d" None False "Returns (Some e)"] fail by simp
  then obtain b1 where rec: "recordFailure (now + int d) b = (Returns (), b1)" by (metis prod.collapse)
  with fail assms(2,4) live have
    "guarded_attempt zero ctx service k now (b, served) = (Returns (zero, Some e), d, ?b, served @ [now])"
    by (simp add: guarded_attempt_def admitted_def ExecuteContext_def)
  moreover have "cb_wf ?b" using recordFailure_wf [OF wf] by simp
  moreover have "state ?b \<noteq> StateHalfOpen" "state ?b = StateOpen \<Longrightarrow> lastFailureTime ?b = now + int d"
    "room b = Suc (room ?b)"
    using assms(2) wf
    by (auto simp: recordFailure_def Let_def snd_transitionTo room_def cb_wf_def counters_ok_def split: if_splits)
  ultimately show ?thesis using q assms(6) by (auto simp: shut_until_def)
qed

text \<open>A service of which every call fails, with an error that is not the client's doing.\<close>

definition failing_service :: "(nat \<Rightarrow> gerror) \<Rightarrow> 'v service \<Rightarrow> bool" where
  "failing_service err service \<longleftrightarrow> (\<forall>k t. fst (service k t) = Returns (Inl (err k)) \<and> \<not> errors_is (err k) CtxCanceled)"

text \<open>The last of \<open>n\<close> attempts on a breaker with room for \<open>r\<close> failures.\<close>

definition last_error :: "(nat \<Rightarrow> gerror) \<Rightarrow> nat \<Rightarrow> nat \<Rightarrow> gerror option" where
  "last_error err r n = (if n = 0 then None else Some (if n \<le> r then err (n - 1) else ErrCircuitOpen))"

definition shed :: "(nat \<Rightarrow> gerror) \<Rightarrow> int \<Rightarrow> breaker \<Rightarrow> nat \<Rightarrow> gerror option \<Rightarrow> breaker \<times> int list \<Rightarrow> bool" where
  "shed err limit b n l s \<longleftrightarrow> shut_until limit (fst s) \<and> config (fst s) = config b
     \<and> length (snd s) = min n (room b) \<and> room (fst s) = room b - n \<and> l = last_error err (room b) n"

lemma shed_attempt:
  assumes "shed err limit b k l s" "failing_service err service" "done_at ctx = None"
    and "now < limit" "limit \<le> now + Timeout (config b)"
    and "guarded_attempt zero ctx service k now s = (res, d, s')"
  shows "\<exists>e. res = Returns (zero, Some e) \<and> shed err limit b (Suc k) (Some e) s'"
proof -
  obtain b1 served where s: "s = (b1, served)" by fastforce
  have live: "ctx_err ctx now = None" using assms(3) by (simp add: ctx_err_def)
  have sh: "shut_until limit b1" and cfg: "config b1 = config b" and r: "room b1 = room b - k"
    using assms(1) by (simp_all add: shed_def s)
  show ?thesis
  proof (cases "state b1 = StateClosed")
    case False
    with attempt_open [OF sh this assms(4) live, of zero service k served] assms(1,6) r show ?thesis
      by (auto simp: shed_def s last_error_def room_def)
  next
    case True
    with sh have "0 < room b1" by (simp add: shut_until_def room_closed)
    obtain dur where sv: "service k now = (Returns (Inl (err k)), dur)"
      using assms(2) by (metis failing_service_def prod.collapse)
    have ne: "\<not> errors_is (err k) CtxCanceled" using assms(2) by (simp add: failing_service_def)
    have "limit \<le> now + int dur + Timeout (config b1)" using assms(5) cfg by simp
    from attempt_closed [where service = service and k = k and zero = zero and served = served,
        OF sh True assms(3) sv ne this] \<open>0 < room b1\<close> assms(1,6) r cfg
    show ?thesis by (auto simp: shed_def s last_error_def)
  qed
qed

lemma loop_sheds:
  assumes "shut_until limit b" "failing_service err service" "done_at ctx = None"
    and "RetryIf cfg = Some (\<lambda>_. True)" "0 < MaxAttempts cfg" "limit \<le> now + Timeout (config b)"
  shows "\<exists>out tr u s. do_value_loop zero (guarded_env zero ctx service orc) cfg 0 now None (b, []) = (out, tr, u, s)
    \<and> now \<le> u \<and> (u < limit \<longrightarrow> (\<exists>l. out = Returns (zero, errors_join [Some ErrMaxAttemptsReached, l])
         \<and> shed err limit b (nat (MaxAttempts cfg)) l s))"
proof -
  let ?E = "guarded_env zero ctx service orc"
  have live: "ctx_err ctx t = None" for t using assms(3) by (simp add: ctx_err_def)
  define I where "I k t l s \<longleftrightarrow> now \<le> t \<and> int k \<le> MaxAttempts cfg \<and> (t < limit \<longrightarrow> shed err limit b k l s)"
    for k t l s
  define Q where "Q out u s \<longleftrightarrow> now \<le> u \<and> (u < limit \<longrightarrow> (\<exists>l. out = Returns (zero, errors_join [Some ErrMaxAttemptsReached, l])
      \<and> shed err limit b (nat (MaxAttempts cfg)) l s))" for out u s
  have step: "now \<le> t \<and> (t < limit \<longrightarrow> (\<exists>e. res = Returns (zero, Some e) \<and> shed err limit b (Suc k) (Some e) s'))"
    if "I k t l s" "fn_call ?E k t s = (res, d, s')" for k t l s res d s'
    using shed_attempt [of err limit b k l s service ctx t zero res d s'] assms that by (auto simp: I_def)
  have "\<exists>out tr u s'. do_value_loop zero ?E cfg 0 now None (b, []) = (out, tr, u, s') \<and> Q out u s'"
  proof (rule value_loop_rule [where I = I and Q = Q, OF assms(4)], goal_cases)
    case 1
    show ?case using assms(1,5) by (simp add: I_def shed_def last_error_def)
  next
    case (3 k t l s)
    then have "int k = MaxAttempts cfg" by (simp add: I_def)
    then have "nat (MaxAttempts cfg) = k" by linarith
    with 3 show ?case by (auto simp: I_def Q_def)
  next
    case (4 k t l s res d s')
    with step [OF 4(1,3)] show ?case by (auto simp: Q_def)
  next
    case (7 k t l s x e d s' u)
    with step [OF 7(1,4)] show ?case by (auto simp: I_def)
  qed (simp_all add: live)
  then show ?thesis by (auto simp: Q_def)
qed

section \<open>Many callers\<close>

text \<open>
  Retried calls one after the other through one breaker: each is a service, its oracle, its options and
  the time it starts. The result has the times at which the service was called and those at which the
  calls returned.
\<close>

fun resilient_calls ::
    "'v \<Rightarrow> context_t \<Rightarrow> ('v service \<times> select_oracle \<times> (rt_config \<Rightarrow> rt_config) option list \<times> int) list \<Rightarrow> breaker
     \<Rightarrow> breaker \<times> int list \<times> int list" where
  "resilient_calls zero ctx [] b = (b, [], [])"
| "resilient_calls zero ctx ((service, orc, opts, now) # rs) b =
     (case resilient_call zero ctx service orc opts now b of (out, u, b', served) \<Rightarrow>
      case resilient_calls zero ctx rs b' of (b'', served', ends) \<Rightarrow> (b'', served @ served', u # ends))"

definition attempts_of :: "(rt_config \<Rightarrow> rt_config) option list \<Rightarrow> nat" where
  "attempts_of opts = nat (MaxAttempts (apply_options opts defaultConfig))"

text \<open>A failing service called with options that retry every error, not before a given time.\<close>

definition storm_call :: "int \<Rightarrow> 'v service \<times> select_oracle \<times> (rt_config \<Rightarrow> rt_config) option list \<times> int \<Rightarrow> bool" where
  "storm_call t0 r \<longleftrightarrow> (case r of (service, orc, opts, now) \<Rightarrow> t0 \<le> now \<and> (\<exists>err. failing_service err service)
     \<and> (\<forall>f. Some f \<in> set opts \<longrightarrow> retry_option f)
     \<and> RetryIf (apply_options opts defaultConfig) = Some (\<lambda>_. True))"

lemma call_sheds:
  assumes "shut_until limit b" "failing_service err service" "done_at ctx = None"
    and "\<And>f. Some f \<in> set opts \<Longrightarrow> retry_option f" "RetryIf (apply_options opts defaultConfig) = Some (\<lambda>_. True)"
    and "limit \<le> now + Timeout (config b)"
    and "resilient_call zero ctx service orc opts now b = (out, u, b', served)" "u < limit"
  shows "0 < attempts_of opts" "\<exists>l. shed err limit b (attempts_of opts) l (b', served)
    \<and> out = Returns (Of zero zero (errors_join [Some ErrMaxAttemptsReached, l]))"
proof -
  let ?c = "apply_options opts defaultConfig"
  have pos: "0 < MaxAttempts ?c"
    using retry_opts.parsed_valid [of opts] assms(4) by (simp add: attempts_ok_def)
  then show "0 < attempts_of opts" by (simp add: attempts_of_def)
  from loop_sheds [OF assms(1-3,5) pos assms(6), of zero orc] assms(7,8)
  show "\<exists>l. shed err limit b (attempts_of opts) l (b', served)
    \<and> out = Returns (Of zero zero (errors_join [Some ErrMaxAttemptsReached, l]))"
    by (auto simp: resilient_call_def DoWithValue_options doWithValueWithConfig_def attempts_of_def)
qed

lemma calls_shed:
  assumes "shut_until limit b" "done_at ctx = None" "limit \<le> t0 + Timeout (config b)"
    and "list_all (storm_call t0) rs" "resilient_calls zero ctx rs b = (b', served, ends)"
    and "\<forall>u \<in> set ends. u < limit"
  shows "length served = min (sum_list (map (\<lambda>(service, orc, opts, now). attempts_of opts) rs)) (room b)"
  using assms
proof (induction rs arbitrary: b served ends)
  case (Cons r rs)
  obtain service orc opts now where r: "r = (service, orc, opts, now)" by (metis surj_pair)
  obtain out u b1 s1 where c: "resilient_call zero ctx service orc opts now b = (out, u, b1, s1)"
    by (metis prod_cases4)
  obtain b2 s2 e2 where cs: "resilient_calls zero ctx rs b1 = (b2, s2, e2)" by (metis prod_cases3)
  have eq: "served = s1 @ s2" "ends = u # e2" "b2 = b'" using Cons.prems(5) by (auto simp: r c cs)
  obtain err where st: "t0 \<le> now" "failing_service err service" "\<And>f. Some f \<in> set opts \<Longrightarrow> retry_option f"
    "RetryIf (apply_options opts defaultConfig) = Some (\<lambda>_. True)"
    using Cons.prems(4) by (auto simp: storm_call_def r)
  have "limit \<le> now + Timeout (config b)" "u < limit" using Cons.prems(3,6) st(1) eq by auto
  from call_sheds(2) [OF Cons.prems(1) st(2) Cons.prems(2) st(3,4) this(1) c this(2)] obtain l where
    sh: "shed err limit b (attempts_of opts) l (b1, s1)" by blast
  with Cons.IH [of b1 s2 e2] Cons.prems(2-4,6) cs eq show ?case by (auto simp: shed_def r)
qed simp

section \<open>Examples\<close>

text \<open>A service that is down and one that is up, and calls that wait 100 ns between their three attempts.\<close>

definition down :: "bytes service" where
  "down k t = (Returns (Inl (Opaque k)), 10)"

definition up :: "bytes service" where
  "up k t = (Returns (Inr [1, 2]), 10)"

definition quick :: "(rt_config \<Rightarrow> rt_config) option list" where
  "quick = [Some (WithInitialDelay 100), Some (WithStrategy StrategyConstant), Some (WithJitter False)]"

definition calm :: select_oracle where
  "calm = \<lparr>both_ready = (\<lambda>_. False), draws = (\<lambda>_ _. None), out_of_range = id\<rparr>"

definition touchy :: cb_config where
  "touchy = DefaultConfig\<lparr>FailureThreshold := 2\<rparr>"

lemma down_fails: "failing_service Opaque down"
  by (simp add: failing_service_def down_def)

lemma quick_options: "Some f \<in> set quick \<Longrightarrow> retry_option f"
  by (auto simp: quick_def intro: retry_option.intros)

lemma quick_retries: "RetryIf (apply_options quick defaultConfig) = Some (\<lambda>_. True)"
  by (simp add: quick_def retry_options defaultConfig_def)

lemma touchy_quiet: "quiet (sanitize touchy)" "Timeout (sanitize touchy) = 30 * second"
  "FailureThreshold (sanitize touchy) = 2"
  by (simp_all add: quiet_def touchy_def sanitize_def DefaultConfig_def second_def)

lemma touchy_breaker:
  "config (New_Breaker touchy) = sanitize touchy" "state (New_Breaker touchy) = StateClosed"
  "room (New_Breaker touchy) = 2" "shut_until limit (New_Breaker touchy)"
proof -
  show cfg: "config (New_Breaker touchy) = sanitize touchy" and st: "state (New_Breaker touchy) = StateClosed"
    by (simp_all add: New_Breaker_def)
  then show "shut_until limit (New_Breaker touchy)" by (simp add: shut_until_def touchy_quiet)
  show "room (New_Breaker touchy) = 2"
    by (simp add: room_def New_Breaker_def touchy_quiet)
qed

lemma quick_attempts: "attempts_of quick = 3"
  by (simp add: attempts_of_def quick_def retry_options defaultConfig_def)

section \<open>Properties\<close>

text \<open>
  C6: retries behind a breaker shed load exactly. If every call of the service fails and the run ends
  before the breaker could let a probe through, the service is called once per attempt until the
  breaker has no room left and never after; the breaker ends with that much less room; and the error is
  \<open>ErrMaxAttemptsReached\<close> joined to the service's last error, or to \<open>ErrCircuitOpen\<close> if the breaker
  opened before the last attempt.
\<close>

theorem retries_shed_load:
  assumes "shut_until limit b" "failing_service err service" "done_at ctx = None"
    and "\<And>f. Some f \<in> set opts \<Longrightarrow> retry_option f" "RetryIf (apply_options opts defaultConfig) = Some (\<lambda>_. True)"
    and "limit \<le> now + Timeout (config b)"
    and "resilient_call zero ctx service orc opts now b = (out, u, b', served)" "u < limit"
  shows "length served = min (attempts_of opts) (room b) \<and> room b' = room b - attempts_of opts
    \<and> (state b' = StateClosed \<longleftrightarrow> attempts_of opts < room b)
    \<and> out = Returns (Err zero (Some (Joined [ErrMaxAttemptsReached,
        if attempts_of opts \<le> room b then err (attempts_of opts - 1) else ErrCircuitOpen])))"
proof -
  note sheds = call_sheds [OF assms]
  from sheds(2) obtain l where sh: "shed err limit b (attempts_of opts) l (b', served)"
    "out = Returns (Of zero zero (errors_join [Some ErrMaxAttemptsReached, l]))" by blast
  then have "cb_wf b'" by (simp add: shed_def shut_until_def)
  then have "state b' = StateClosed \<longleftrightarrow> 0 < room b'"
    using room_closed [of b'] by (auto simp: room_def [of b'])
  with sh sheds(1) show ?thesis by (auto simp: shed_def last_error_def Of_def)
qed

theorem retries_shed_load_witness:
  "case resilient_call [] background down calm quick 0 (New_Breaker touchy) of (out, u, b, served) \<Rightarrow>
     length served = 2 \<and> state b \<noteq> StateClosed
     \<and> out = Returns (Err [] (Some (Joined [ErrMaxAttemptsReached, ErrCircuitOpen])))"
proof -
  obtain out u b served where run: "resilient_call [] background down calm quick 0 (New_Breaker touchy) = (out, u, b, served)"
    by (metis prod_cases4)
  moreover have "fst (snd (resilient_call [] background down calm quick 0 (New_Breaker touchy))) = 220" by code_simp
  ultimately have "u < 1000" by simp
  from retries_shed_load [OF touchy_breaker(4) down_fails background_never_done quick_options quick_retries _ run this]
  show ?thesis
    using run touchy_breaker touchy_quiet by (simp add: quick_attempts second_def)
qed

text \<open>
  C15: a sequence of retried calls does not go past the breaker's threshold. However many retried calls
  are made one after the other, none overlapping another and under a context that is never done, of
  services that fail, with whatever numbers of attempts, and however they fail, as
  long as all return within \<open>Timeout\<close> of the first start the services are called exactly as often as
  attempts are made in all, or \<open>FailureThreshold\<close> times if that is less.
\<close>

theorem retry_storm_bounded:
  assumes "quiet (sanitize cfg)" "done_at ctx = None" "list_all (storm_call t0) rs"
    and "resilient_calls zero ctx rs (New_Breaker cfg) = (b, served, ends)"
    and "\<forall>u \<in> set ends. u < t0 + Timeout (sanitize cfg)"
  shows "int (length served) = min (int (sum_list (map (\<lambda>(service, orc, opts, now). attempts_of opts) rs)))
    (FailureThreshold (sanitize cfg))"
proof -
  have b: "config (New_Breaker cfg) = sanitize cfg" "state (New_Breaker cfg) = StateClosed"
    "failureCount (New_Breaker cfg) = 0" by (simp_all add: New_Breaker_def)
  with assms(1) have "shut_until (t0 + Timeout (sanitize cfg)) (New_Breaker cfg)"
    by (simp add: shut_until_def)
  from calls_shed [OF this assms(2) _ assms(3-5)] b show ?thesis
    using sanitize_ok [of cfg] by (simp add: room_def config_ok_def of_nat_min)
qed

text \<open>
  C14: what a retried call through a breaker returns is genuine. Whatever the service, the context and
  the options, if the breaker's callback does not panic: a value is the one the last call of the
  service returned; an error is the context's, which is done when the call ends, or one that an attempt
  ended with (the breaker's, the context's, or one the service returned when it was called), as it is
  if it is not retryable, and joined to \<open>ErrMaxAttemptsReached\<close> if it is: exhaustion is never reported
  by a bare error; a panic is the service's; and the service is called at most \<open>MaxAttempts\<close> times.
\<close>

theorem resilient_call_genuine:
  assumes "quiet (config b)" "RetryIf (apply_options opts defaultConfig) = Some p"
    and "\<And>f. Some f \<in> set opts \<Longrightarrow> retry_option f"
    and "resilient_call zero ctx service orc opts now b = (out, u, b', served)"
  shows "int (length served) \<le> MaxAttempts (apply_options opts defaultConfig)
    \<and> (case out of
         Panics v \<Rightarrow> \<exists>k. \<exists>t \<in> set served. fst (service k t) = Panics v
       | Returns r \<Rightarrow>
           if IsOk r then \<exists>k. served \<noteq> [] \<and> fst (service k (last served)) = Returns (Inr (fst (Unwrap r)))
           else \<exists>e. Result_Error r = Some e \<and> reported p ctx service served u e)"
proof -
  let ?c = "apply_options opts defaultConfig"
  have pos: "0 < MaxAttempts ?c"
    using retry_opts.parsed_valid [of opts] assms(3) by (simp add: attempts_ok_def)
  from loop_genuine [OF assms(2,1) pos, of zero ctx service orc now] assms(4) obtain res where
    "genuine p ctx service served u res" "out = map_outcome (\<lambda>(v, err). Of zero v err) res"
    "int (length served) \<le> MaxAttempts ?c"
    by (auto simp: resilient_call_def DoWithValue_options doWithValueWithConfig_def)
  then show ?thesis
    by (cases res rule: outcome_value_cases) (auto simp: genuine_def go_defs)
qed

theorem retry_storm_bounded_witness:
  "length (fst (snd (resilient_calls [] background [(down, calm, quick, 5), (down, calm, quick, 300)] (New_Breaker touchy)))) = 2"
proof -
  let ?rs = "[(down, calm, quick, 5), (down, calm, quick, 300)]"
  obtain b served ends where run: "resilient_calls [] background ?rs (New_Breaker touchy) = (b, served, ends)"
    by (metis prod_cases3)
  have "snd (snd (resilient_calls [] background ?rs (New_Breaker touchy))) = [225, 500]" by code_simp
  with run have "\<forall>u \<in> set ends. u < 5 + Timeout (sanitize touchy)" by (simp add: touchy_quiet second_def)
  moreover have "list_all (storm_call 5) ?rs"
    using down_fails quick_options quick_retries by (auto simp: storm_call_def)
  ultimately have "int (length served) = min 6 (FailureThreshold (sanitize touchy))"
    using retry_storm_bounded [OF touchy_quiet(1) background_never_done _ run] by (simp add: quick_attempts)
  with run show ?thesis by (simp add: touchy_quiet del: resilient_calls.simps)
qed

lemma resilient_call_error:
  assumes "resilient_call zero ctx service orc opts now b = (Returns r, u, b', served)" "\<not> r_ok r"
  shows "r_err r \<noteq> None"
proof -
  obtain out tr u' s where "DoWithValue zero (guarded_env zero ctx service orc) now opts (b, []) = (out, tr, u', s)"
    by (metis prod_cases4)
  with assms(1) obtain v err where "r = Of zero v err"
    by (cases out) (auto simp: resilient_call_def split: prod.splits)
  with assms(2) show ?thesis by (auto simp: Of_def Err_def Ok_def split: if_splits)
qed

theorem resilient_call_genuine_witness:
  "case resilient_call [] background up calm quick 5 (New_Breaker touchy) of (out, u, b, served) \<Rightarrow>
     length served \<le> 3 \<and> (\<forall>v. out \<noteq> Panics v)"
proof -
  obtain out u b served where run: "resilient_call [] background up calm quick 5 (New_Breaker touchy) = (out, u, b, served)"
    by (metis prod_cases4)
  have "MaxAttempts (apply_options quick defaultConfig) = 3"
    by (simp add: quick_def retry_options defaultConfig_def)
  with resilient_call_genuine [OF _ quick_retries quick_options run] run show ?thesis
    by (auto simp: touchy_breaker touchy_quiet up_def split: outcome.splits)
qed

text \<open>Operations on a cache that leave a key alone.\<close>

fun leaves_alone :: "string \<Rightarrow> int \<times> (string, bytes) cache_op \<Rightarrow> bool" where
  "leaves_alone key (t, OSet k v d) \<longleftrightarrow> k \<noteq> key"
| "leaves_alone key (t, ODelete k) \<longleftrightarrow> k \<noteq> key"
| "leaves_alone key (t, OGet k) = True"
| "leaves_alone key (t, OSweep) = True"

lemma live_leaves_alone:
  assumes "leaves_alone key x" "fst x \<le> now"
  shows "live (mem_op x c) now key = live c now key"
  using assms
  by (induction key x rule: leaves_alone.induct)
    (simp_all add: Cache_Set_def live_set Cache_Delete_def live_delete live_Get live_evictExpired)

lemma live_fold_leaves_alone:
  assumes "list_all (leaves_alone key) xs" "\<forall>x \<in> set xs. fst x \<le> now"
  shows "live (fold mem_op xs c) now key = live c now key"
  using assms by (induction xs arbitrary: c) (simp_all add: live_leaves_alone)

text \<open>
  C16: a fetched value is served from the cache. When a fetch has called the service and returned a
  value, then for \<open>ttl\<close> any fetch of the key is a hit, whatever was set, read, deleted and swept of
  other keys in between and whatever the breaker's state: it returns at once, calls no service, leaves
  the breaker alone, and what it finds in the cache is that value.
\<close>

theorem fetched_value_is_cached:
  assumes "fetch_item hit ttl key ctx service orc opts now (c, b) = (Returns (v, None), u, (c1, b1), served)"
    and "served \<noteq> []" "ctx_err ctx u = None" "sane_clock u ttl" "t \<le> u + ttl"
    and "list_all (leaves_alone key) xs" "\<forall>x \<in> set xs. fst x \<le> t" "ctx_err ctx' t = None"
  shows "fetch_item hit ttl key ctx' service' orc' opts' t (fold mem_op xs c1, b') =
      (Returns (hit, None), t, (fold mem_op xs c1, b'), [])
    \<and> fst (Cache_Get None t key (fold mem_op xs c1)) = Inr v"
proof -
  obtain r c' where g: "Cache_Get (ctx_err ctx now) now key c = (r, c')" by fastforce
  obtain out u' b'' s' where rc: "resilient_call [] ctx service orc opts now b = (out, u', b'', s')"
    by (metis prod_cases4)
  have "c1 = snd (Cache_Set None u key v ttl c')"
    using assms(1-3) g rc resilient_call_error [of "[]" ctx service orc opts now b]
    by (auto simp: fetch_item_def Let_def go_defs split: sum.splits outcome.splits if_splits)
  then have "live c1 t key = Some v"
    using assms(4,5) by (auto simp: Cache_Set_def live_set deadline_nonzero) (auto simp: deadline_def)
  then have look: "live (fold mem_op xs c1) t key = Some v"
    using live_fold_leaves_alone [OF assms(6,7)] by simp
  then have "Cache_Get None t key (fold mem_op xs c1) = (Inr v, fold mem_op xs c1)"
    by (auto simp: live_def Cache_Get_def split: option.splits if_splits)
  with assms(8) show ?thesis by (simp add: fetch_item_def)
qed

theorem fetched_value_is_cached_witness:
  "fst (fetch_item [7] 100 ''a'' background down calm quick (10 ^ 19 + 90)
      (fold mem_op [(10 ^ 19 + 50, OSet ''b'' [3] 0), (10 ^ 19 + 60, OSweep)]
         (fst (fst (snd (snd (fetch_item [7] 100 ''a'' background up calm quick (10 ^ 19) (NewInMemoryCache, New_Breaker touchy)))))),
       New_Breaker touchy)) = Returns ([7], None)"
proof -
  let ?f = "fetch_item [7] 100 ''a'' background up calm quick (10 ^ 19) (NewInMemoryCache, New_Breaker touchy)"
  let ?xs = "[(10 ^ 19 + 50, OSet ''b'' [3] 0), (10 ^ 19 + 60, OSweep)]"
  have ends: "fst ?f = Returns ([1, 2], None)" "fst (snd ?f) = 10 ^ 19 + 10" "snd (snd (snd ?f)) = [10 ^ 19]"
    by code_simp+
  then obtain c b where f: "?f = (Returns ([1, 2], None), 10 ^ 19 + 10, (c, b), [10 ^ 19])"
    by (metis prod.collapse)
  from fetched_value_is_cached [OF f, of "10 ^ 19 + 90" ?xs background down calm quick "New_Breaker touchy"] f
  show ?thesis by (simp add: sane_clock_def)
qed

end
