(* ===== verification/Async.thy ===== *)
theory Async
  imports Prelude
begin

text \<open>
  \<open>async/async.go\<close>: \<open>Go\<close>, \<open>GoErr\<close>, \<open>Group\<close>, \<open>Map\<close> and \<open>Fan\<close>. A user function
  returns or panics; it may behave differently each time it is called, so the concurrent functions take
  the set of outcomes a call can have.
\<close>

text \<open>
  The contract of a recovery boundary: the wrapped call returns what the call returns, and a panic
  becomes a value. Such a boundary never panics and one of them is enough.
\<close>

locale recovery =
  fixes outcome_of :: "'h \<Rightarrow> 'o outcome" and wrap :: "'h \<Rightarrow> 'h" and on_panic :: "pvalue \<Rightarrow> 'o"
  assumes returned: "outcome_of h = Returns y \<Longrightarrow> outcome_of (wrap h) = Returns y"
    and recovered: "outcome_of h = Panics v \<Longrightarrow> outcome_of (wrap h) = Returns (on_panic v)"
begin

lemma no_panic: "\<exists>y. outcome_of (wrap h) = Returns y"
  by (cases "outcome_of h") (auto dest: returned recovered)

lemma wrap_twice: "outcome_of (wrap (wrap h)) = outcome_of (wrap h)"
  using no_panic [of h] by (auto dest: returned)

lemma wrapped_value:
  "outcome_of (wrap h) = Returns (case outcome_of h of Returns y \<Rightarrow> y | Panics v \<Rightarrow> on_panic v)"
  by (cases "outcome_of h") (auto dest: returned recovered)

end

section \<open>Panics as errors\<close>

text \<open>The text of a \<open>PanicError\<close>; the stack is not part of the error values of the model, so it is an argument.\<close>

definition PanicError_Error :: "(pvalue \<Rightarrow> string) \<Rightarrow> pvalue \<Rightarrow> string \<Rightarrow> string" where
  "PanicError_Error fmt_v value stack = ''panic recovered: '' @ fmt_v value @ [CHR 0x0A] @ stack"

section \<open>Go and GoErr\<close>

text \<open>
  The goroutine \<open>Go\<close> starts: the errors its callback is called with, and how the goroutine ends; a
  goroutine that ends by a panic, here one of the callback, takes the process down.
\<close>

definition Go_goroutine ::
    "unit outcome \<Rightarrow> (gerror \<Rightarrow> unit outcome) option list \<Rightarrow> gerror list \<times> unit outcome" where
  "Go_goroutine fn onPanic =
     (case fn of
        Returns u \<Rightarrow> ([], Returns ())
      | Panics r \<Rightarrow>
          (let panicErr = PanicError r
           in if length onPanic > 0 \<and> onPanic ! 0 \<noteq> None
              then ([panicErr], the (onPanic ! 0) panicErr)
              else ([], Returns ())))"

text \<open>
  The goroutine of \<open>GoErr\<close>: the values sent to the channel, in order. The channel has room for one,
  so a second send would block it for ever.
\<close>

definition GoErr_goroutine :: "gerror option outcome \<Rightarrow> gerror option list" where
  "GoErr_goroutine fn =
     (case fn of Returns err \<Rightarrow> [err] | Panics r \<Rightarrow> [Some (PanicError r)])"

section \<open>Group\<close>

text \<open>
  A group: the wait group's counter, the collected errors, and the goroutines still to append their
  error (\<open>gr_running\<close>, with the outcome their function will have) or to call \<open>Done\<close>
  (\<open>gr_finishing\<close>). \<open>gr_launched\<close> is a ghost: the outcomes of everything ever given to \<open>Go\<close>.
\<close>

record group_sys =
  gr_wg :: nat
  gr_errs :: "gerror list"
  gr_running :: "gerror option outcome multiset"
  gr_finishing :: nat
  gr_launched :: "gerror option outcome multiset"

definition NewGroup :: group_sys where
  "NewGroup = \<lparr>gr_wg = 0, gr_errs = [], gr_running = {#}, gr_finishing = 0, gr_launched = {#}\<rparr>"

text \<open>What a recovering worker appends to the shared error slice.\<close>

definition worker_error :: "gerror option outcome \<Rightarrow> gerror list" where
  "worker_error out =
     (case out of Returns None \<Rightarrow> [] | Returns (Some e) \<Rightarrow> [e] | Panics r \<Rightarrow> [PanicError r])"

inductive group_step :: "group_sys \<Rightarrow> group_sys \<Rightarrow> bool" where
  group_go: "group_step g
    (g\<lparr>gr_wg := gr_wg g + 1, gr_running := add_mset out (gr_running g),
       gr_launched := add_mset out (gr_launched g)\<rparr>)"
| group_run: "out \<in># gr_running g \<Longrightarrow> group_step g
    (g\<lparr>gr_errs := gr_errs g @ worker_error out, gr_running := gr_running g - {#out#},
       gr_finishing := gr_finishing g + 1\<rparr>)"
| group_done: "gr_finishing g > 0 \<Longrightarrow> group_step g
    (g\<lparr>gr_wg := gr_wg g - 1, gr_finishing := gr_finishing g - 1\<rparr>)"

text \<open>\<open>Wait\<close>: \<open>None\<close> while it blocks; the nil slice and the empty one are the same list.\<close>

definition Group_Wait :: "group_sys \<Rightarrow> gerror list option" where
  "Group_Wait g =
     (if gr_wg g = 0 then (if length (gr_errs g) = 0 then Some [] else Some (gr_errs g)) else None)"

section \<open>Map\<close>

text \<open>
  The calling goroutine is at the loop head for index \<open>i\<close>, in the \<open>select\<close> for it, in \<open>wg.Wait\<close>, or
  has returned. A worker is not started, spawned, inside \<open>fn\<close>, past it with its slots written, past
  the release of the semaphore, or done.
\<close>

datatype map_main = MCheck nat | MAcquire nat | MWait | MReturned "gerror option"

datatype worker = NotStarted | Spawned | Running | Finishing | Released | Finished

record 'r map_sys =
  main :: map_main
  results :: "'r list"
  errs :: "gerror option list"
  sem :: nat
  wg :: nat
  workers :: "worker list"
  ctxerr :: "gerror option"

definition capacity :: "int \<Rightarrow> nat" where
  "capacity concurrency = nat (if concurrency \<le> 0 then 1 else concurrency)"

definition specific :: "gerror \<Rightarrow> bool" where
  "specific err \<longleftrightarrow> err \<noteq> CtxCanceled \<and> err \<noteq> CtxDeadlineExceeded"

fun first_specific :: "gerror option list \<Rightarrow> gerror option" where
  "first_specific [] = None"
| "first_specific (None # es) = first_specific es"
| "first_specific (Some err # es) = (if specific err then Some err else first_specific es)"

text \<open>The error \<open>Map\<close> returns once its workers are done.\<close>

definition map_error :: "gerror option list \<Rightarrow> gerror option \<Rightarrow> gerror option" where
  "map_error es cerr =
     (case first_specific es of
        Some err \<Rightarrow> Some err
      | None \<Rightarrow> (case cerr of Some err \<Rightarrow> Some err | None \<Rightarrow> first_error es))"

inductive map_step ::
    "'a list \<Rightarrow> nat \<Rightarrow> ('a \<Rightarrow> ('r \<times> gerror option) outcome set) \<Rightarrow> 'r map_sys \<Rightarrow> 'r map_sys \<Rightarrow> bool"
  for its :: "'a list" and cap :: nat and fn :: "'a \<Rightarrow> ('r \<times> gerror option) outcome set" where
  ctx_done: "ctxerr s = None \<Longrightarrow> e = CtxCanceled \<or> e = CtxDeadlineExceeded \<Longrightarrow>
    map_step its cap fn s (s\<lparr>ctxerr := Some e\<rparr>)"
| loop_end: "main s = MCheck i \<Longrightarrow> \<not> i < length its \<Longrightarrow> map_step its cap fn s (s\<lparr>main := MWait\<rparr>)"
| loop_break: "main s = MCheck i \<Longrightarrow> i < length its \<Longrightarrow> ctxerr s \<noteq> None \<Longrightarrow>
    map_step its cap fn s (s\<lparr>main := MWait\<rparr>)"
| loop_select: "main s = MCheck i \<Longrightarrow> i < length its \<Longrightarrow> ctxerr s = None \<Longrightarrow>
    map_step its cap fn s (s\<lparr>main := MAcquire i\<rparr>)"
| select_done: "main s = MAcquire i \<Longrightarrow> ctxerr s \<noteq> None \<Longrightarrow> map_step its cap fn s (s\<lparr>main := MWait\<rparr>)"
| select_sem: "main s = MAcquire i \<Longrightarrow> sem s < cap \<Longrightarrow>
    map_step its cap fn s (s\<lparr>main := MCheck (i + 1), sem := sem s + 1, wg := wg s + 1,
      workers := (workers s)[i := Spawned]\<rparr>)"
| worker_skip: "i < length (workers s) \<Longrightarrow> workers s ! i = Spawned \<Longrightarrow> ctxerr s = Some e \<Longrightarrow>
    map_step its cap fn s (s\<lparr>errs := (errs s)[i := Some e], workers := (workers s)[i := Finishing]\<rparr>)"
| worker_call: "i < length (workers s) \<Longrightarrow> workers s ! i = Spawned \<Longrightarrow> ctxerr s = None \<Longrightarrow>
    map_step its cap fn s (s\<lparr>workers := (workers s)[i := Running]\<rparr>)"
| worker_return: "i < length (workers s) \<Longrightarrow> workers s ! i = Running \<Longrightarrow> Returns (r, err) \<in> fn (its ! i) \<Longrightarrow>
    map_step its cap fn s (s\<lparr>results := (results s)[i := r], errs := (errs s)[i := err],
      workers := (workers s)[i := Finishing]\<rparr>)"
| worker_panic: "i < length (workers s) \<Longrightarrow> workers s ! i = Running \<Longrightarrow> Panics v \<in> fn (its ! i) \<Longrightarrow>
    map_step its cap fn s (s\<lparr>errs := (errs s)[i := Some (PanicError v)],
      workers := (workers s)[i := Finishing]\<rparr>)"
| worker_release: "i < length (workers s) \<Longrightarrow> workers s ! i = Finishing \<Longrightarrow> sem s > 0 \<Longrightarrow>
    map_step its cap fn s (s\<lparr>sem := sem s - 1, workers := (workers s)[i := Released]\<rparr>)"
| worker_done: "i < length (workers s) \<Longrightarrow> workers s ! i = Released \<Longrightarrow>
    map_step its cap fn s (s\<lparr>wg := wg s - 1, workers := (workers s)[i := Finished]\<rparr>)"
| map_return: "main s = MWait \<Longrightarrow> wg s = 0 \<Longrightarrow>
    map_step its cap fn s (s\<lparr>main := MReturned (map_error (errs s) (ctxerr s))\<rparr>)"

definition map_init :: "'a list \<Rightarrow> 'r \<Rightarrow> 'r map_sys \<Rightarrow> bool" where
  "map_init its zero s \<longleftrightarrow> main s = MCheck 0 \<and> results s = replicate (length its) zero
     \<and> errs s = replicate (length its) None \<and> sem s = 0 \<and> wg s = 0
     \<and> workers s = replicate (length its) NotStarted
     \<and> ctxerr s \<in> {None, Some CtxCanceled, Some CtxDeadlineExceeded}"

section \<open>Fan\<close>

text \<open>
  \<open>Fan\<close> launches a goroutine for each item until the context is done, and then adds the context's
  error. The outcomes of the running workers are kept as in a group.
\<close>

datatype fan_main = FLoop nat | FWait | FReturned "gerror list"

record fan_sys =
  fan_main :: fan_main
  fan_ctxerr :: "gerror option"
  fan_group :: group_sys
  fan_extra :: "gerror list"               \<comment> \<open>ghost: what the loop itself appended\<close>

inductive fan_step :: "'a list \<Rightarrow> ('a \<Rightarrow> gerror option outcome set) \<Rightarrow> fan_sys \<Rightarrow> fan_sys \<Rightarrow> bool"
  for its :: "'a list" and fn :: "'a \<Rightarrow> gerror option outcome set" where
  fan_ctx_done: "fan_ctxerr s = None \<Longrightarrow> e = CtxCanceled \<or> e = CtxDeadlineExceeded \<Longrightarrow>
    fan_step its fn s (s\<lparr>fan_ctxerr := Some e\<rparr>)"
| fan_break: "fan_main s = FLoop i \<Longrightarrow> i < length its \<Longrightarrow> fan_ctxerr s = Some e \<Longrightarrow>
    fan_step its fn s (s\<lparr>fan_main := FWait, fan_extra := [e],
      fan_group := (fan_group s)\<lparr>gr_errs := gr_errs (fan_group s) @ [e]\<rparr>\<rparr>)"
| fan_launch: "fan_main s = FLoop i \<Longrightarrow> i < length its \<Longrightarrow> fan_ctxerr s = None \<Longrightarrow> out \<in> fn (its ! i) \<Longrightarrow>
    fan_step its fn s (s\<lparr>fan_main := FLoop (i + 1),
      fan_group := (fan_group s)\<lparr>gr_wg := gr_wg (fan_group s) + 1,
        gr_running := add_mset out (gr_running (fan_group s)),
        gr_launched := add_mset out (gr_launched (fan_group s))\<rparr>\<rparr>)"
| fan_end: "fan_main s = FLoop i \<Longrightarrow> \<not> i < length its \<Longrightarrow> fan_step its fn s (s\<lparr>fan_main := FWait\<rparr>)"
| fan_run: "out \<in># gr_running (fan_group s) \<Longrightarrow>
    fan_step its fn s (s\<lparr>fan_group := (fan_group s)\<lparr>
      gr_errs := gr_errs (fan_group s) @ worker_error out,
      gr_running := gr_running (fan_group s) - {#out#},
      gr_finishing := gr_finishing (fan_group s) + 1\<rparr>\<rparr>)"
| fan_done: "gr_finishing (fan_group s) > 0 \<Longrightarrow>
    fan_step its fn s (s\<lparr>fan_group := (fan_group s)\<lparr>gr_wg := gr_wg (fan_group s) - 1,
      gr_finishing := gr_finishing (fan_group s) - 1\<rparr>\<rparr>)"
| fan_return: "fan_main s = FWait \<Longrightarrow> gr_wg (fan_group s) = 0 \<Longrightarrow>
    fan_step its fn s (s\<lparr>fan_main := FReturned (gr_errs (fan_group s))\<rparr>)"

definition fan_init :: "fan_sys \<Rightarrow> bool" where
  "fan_init s \<longleftrightarrow> fan_main s = FLoop 0 \<and> fan_group s = NewGroup \<and> fan_extra s = []
     \<and> fan_ctxerr s \<in> {None, Some CtxCanceled, Some CtxDeadlineExceeded}"

end
