(* ===== verification/AsyncSpec.thy ===== *)
theory AsyncSpec
  imports Async
begin

text \<open>
  The properties of the async package: the invariant of \<open>Map\<close>, its bounded concurrency, what its
  result means, that it always returns, and that \<open>Group\<close> and \<open>Fan\<close> lose no error.
\<close>

section \<open>The error Map selects\<close>

lemma first_specific_Some:
  "first_specific es = Some e \<longleftrightarrow>
     (\<exists>i < length es. es ! i = Some e \<and> specific e \<and> (\<forall>j < i. \<forall>d. es ! j = Some d \<longrightarrow> \<not> specific d))"
proof (induction es rule: first_specific.induct)
  case (2 es)
  then show ?case by (simp add: Ex_less_Suc2 All_less_Suc2)
next
  case (3 err es)
  then show ?case by (auto simp: Ex_less_Suc2 All_less_Suc2)
qed simp

lemma first_specific_None:
  "first_specific es = None \<longleftrightarrow> (\<forall>e. Some e \<in> set es \<longrightarrow> \<not> specific e)"
  by (induction es rule: first_specific.induct) auto

lemma first_error_None: "first_error es = None \<longleftrightarrow> (\<forall>e. Some e \<notin> set es)"
  by (induction es rule: first_error.induct) auto

lemma first_error_Some: "first_error es = Some e \<Longrightarrow> Some e \<in> set es"
  by (induction es rule: first_error.induct) auto

lemma map_error_None: "map_error es c = None \<longleftrightarrow> c = None \<and> (\<forall>e. Some e \<notin> set es)"
  using first_specific_None [of es] first_error_None [of es]
  by (cases "first_specific es") (auto simp: map_error_def first_specific_Some split: option.split)

section \<open>Invariant of Map\<close>

definition holds_slot :: "worker \<Rightarrow> bool" where
  "holds_slot w \<longleftrightarrow> w \<in> {Spawned, Running, Finishing}"

definition counted :: "worker \<Rightarrow> bool" where
  "counted w \<longleftrightarrow> w \<in> {Spawned, Running, Finishing, Released}"

text \<open>The slots a worker has written, or not yet.\<close>

definition slot_ok ::
    "('a \<Rightarrow> ('r \<times> gerror option) outcome set) \<Rightarrow> 'r \<Rightarrow> gerror option \<Rightarrow> 'a \<Rightarrow> worker \<Rightarrow> 'r \<Rightarrow> gerror option \<Rightarrow> bool" where
  "slot_ok fn zero c x w r e \<longleftrightarrow>
     (if w \<in> {NotStarted, Spawned, Running} then r = zero \<and> e = None
      else (e \<noteq> None \<and> e = c \<and> r = zero) \<or> Returns (r, e) \<in> fn x
           \<or> (\<exists>v. Panics v \<in> fn x \<and> e = Some (PanicError v) \<and> r = zero))"

text \<open>The workers below \<open>k\<close>, and no others, have been launched.\<close>

definition launched_to :: "nat \<Rightarrow> worker list \<Rightarrow> nat \<Rightarrow> bool" where
  "launched_to n ws k \<longleftrightarrow> k \<le> n \<and> (\<forall>j < n. ws ! j \<noteq> NotStarted \<longleftrightarrow> j < k)"

fun main_ok :: "nat \<Rightarrow> 'r map_sys \<Rightarrow> map_main \<Rightarrow> bool" where
  "main_ok n s (MCheck i) = launched_to n (workers s) i"
| "main_ok n s (MAcquire i) = (launched_to n (workers s) i \<and> i < n)"
| "main_ok n s MWait = (\<exists>k. launched_to n (workers s) k \<and> (k = n \<or> ctxerr s \<noteq> None))"
| "main_ok n s (MReturned err) = (wg s = 0 \<and> (\<exists>k c. launched_to n (workers s) k
     \<and> (k = n \<or> c \<noteq> None) \<and> (c = None \<or> c = ctxerr s) \<and> err = map_error (errs s) c))"

definition map_inv ::
    "'a list \<Rightarrow> nat \<Rightarrow> ('a \<Rightarrow> ('r \<times> gerror option) outcome set) \<Rightarrow> 'r \<Rightarrow> 'r map_sys \<Rightarrow> bool" where
  "map_inv its cap fn zero s \<longleftrightarrow>
     length (results s) = length its \<and> length (errs s) = length its \<and> length (workers s) = length its
     \<and> sem s = count_below (length its) (\<lambda>i. holds_slot (workers s ! i)) \<and> sem s \<le> cap
     \<and> wg s = count_below (length its) (\<lambda>i. counted (workers s ! i))
     \<and> (\<forall>i < length its. slot_ok fn zero (ctxerr s) (its ! i) (workers s ! i) (results s ! i) (errs s ! i))
     \<and> main_ok (length its) s (main s)
     \<and> ctxerr s \<in> {None, Some CtxCanceled, Some CtxDeadlineExceeded}"

lemma slot_ok_ctx: "slot_ok fn zero None x w r e \<Longrightarrow> slot_ok fn zero c x w r e"
  by (auto simp: slot_ok_def)

lemma map_init_inv: "map_init its zero s \<Longrightarrow> map_inv its cap fn zero s"
  by (auto simp: map_init_def map_inv_def launched_to_def slot_ok_def count_below_eq_0
      holds_slot_def counted_def intro!: count_below_eq_0 [THEN iffD2, symmetric])

text \<open>How the counters move when worker \<open>i\<close> moves from one phase to another.\<close>

lemma count_update:
  assumes "i < n" "n = length ws"
  shows "count_below n (\<lambda>j. P (ws[i := w] ! j)) + (if P (ws ! i) then 1 else 0)
       = count_below n (\<lambda>j. P (ws ! j)) + (if P w then 1 else 0)"
proof -
  have other: "j \<noteq> i \<Longrightarrow> P (ws[i := w] ! j) = P (ws ! j)" for j by simp
  have self: "ws[i := w] ! i = w" using assms by simp
  show ?thesis
    using count_below_gain [of i n "\<lambda>j. P (ws ! j)" "\<lambda>j. P (ws[i := w] ! j)"]
      count_below_loss [of i n "\<lambda>j. P (ws ! j)" "\<lambda>j. P (ws[i := w] ! j)"]
      count_below_same [of "\<lambda>j. P (ws[i := w] ! j)" i "\<lambda>j. P (ws ! j)" n] assms self other
    by (cases "P (ws ! i)"; cases "P w") auto
qed

lemma count_up:
  assumes "\<not> P (ws ! i)" "P w" "i < n" "n = length ws"
  shows "count_below n (\<lambda>j. P (ws ! j)) + 1 = count_below n (\<lambda>j. P (ws[i := w] ! j))"
  using count_update [OF assms(3,4), of P w, unfolded if_not_P [OF assms(1)] if_P [OF assms(2)]]
  by linarith

lemma launched_update:
  "launched_to n ws k \<Longrightarrow> n = length ws \<Longrightarrow> ws ! i \<noteq> NotStarted \<Longrightarrow> w \<noteq> NotStarted \<Longrightarrow>
   launched_to n (ws[i := w]) k"
  by (cases "i < length ws") (auto simp: launched_to_def nth_list_update)

lemma launched_next:
  "launched_to n ws k \<Longrightarrow> n = length ws \<Longrightarrow> k < n \<Longrightarrow> launched_to n (ws[k := Spawned]) (Suc k)"
  by (auto simp: launched_to_def nth_list_update)

lemma main_ok_workers:
  assumes "main_ok n s (main s)" "n = length (workers s)" "workers s ! i \<noteq> NotStarted" "w \<noteq> NotStarted"
    and "workers t = (workers s)[i := w]" "ctxerr t = ctxerr s" "main t = main s"
    and "wg s = 0 \<Longrightarrow> False"
  shows "main_ok n t (main t)"
  using assms by (cases "main s") (auto intro: launched_update)

text \<open>
  A move of worker \<open>i\<close> keeps the invariant if it keeps the counters right and leaves its slots right.
\<close>

lemma map_inv_worker:
  assumes inv: "map_inv its cap fn zero s" and i: "i < length (workers s)"
    and w: "workers s ! i \<noteq> NotStarted" "counted (workers s ! i)" "w \<noteq> NotStarted"
    and t: "workers t = (workers s)[i := w]" "ctxerr t = ctxerr s" "main t = main s"
    and r: "results t = (results s)[i := r]" "errs t = (errs s)[i := e]"
    and slot: "slot_ok fn zero (ctxerr s) (its ! i) w r e"
    and sem: "sem t + (if holds_slot (workers s ! i) then 1 else 0) = sem s + (if holds_slot w then 1 else 0)"
    and wg: "wg t + 1 = wg s + (if counted w then 1 else 0)"
    and le: "sem t \<le> sem s"
  shows "map_inv its cap fn zero t"
proof -
  let ?n = "length its"
  have len: "length (workers s) = ?n" "length (results s) = ?n" "length (errs s) = ?n"
    and sem0: "sem s = count_below ?n (\<lambda>j. holds_slot (workers s ! j))"
    and wg0: "wg s = count_below ?n (\<lambda>j. counted (workers s ! j))"
    and slots: "\<And>j. j < ?n \<Longrightarrow>
      slot_ok fn zero (ctxerr s) (its ! j) (workers s ! j) (results s ! j) (errs s ! j)"
    and main0: "main_ok ?n s (main s)" and bound: "sem s \<le> cap"
    and ctx0: "ctxerr s \<in> {None, Some CtxCanceled, Some CtxDeadlineExceeded}"
    using inv by (simp_all add: map_inv_def)
  have pos: "0 < wg s"
    using i w len count_below_eq_0 [of ?n "\<lambda>j. counted (workers s ! j)"] unfolding wg0 by auto
  have "sem t = count_below ?n (\<lambda>j. holds_slot (workers t ! j))"
    using count_update [of i ?n "workers s" holds_slot w] i len(1) sem unfolding t sem0 by linarith
  moreover have "wg t = count_below ?n (\<lambda>j. counted (workers t ! j))"
    using count_update [of i ?n "workers s" counted w, unfolded if_P [OF w(2)]] i len(1) wg
    unfolding t wg0 by linarith
  moreover have "main_ok ?n t (main t)"
    by (rule main_ok_workers [OF main0 len(1) [symmetric] w(1) w(3) t]) (use pos in simp)
  moreover have "slot_ok fn zero (ctxerr t) (its ! j) (workers t ! j) (results t ! j) (errs t ! j)" if "j < ?n" for j
  proof (cases "j = i")
    case False
    then show ?thesis using slots [OF that] by (simp add: t r)
  qed (use slot that len t r in simp)
  moreover have "length (workers t) = ?n" "length (results t) = ?n" "length (errs t) = ?n"
    unfolding t r by (simp_all add: len)
  moreover have "sem t \<le> cap" "ctxerr t \<in> {None, Some CtxCanceled, Some CtxDeadlineExceeded}"
    using bound le ctx0 t(2) by simp_all
  ultimately show ?thesis unfolding map_inv_def by blast
qed

text \<open>A step that moves no worker keeps the invariant if it leaves the calling goroutine right.\<close>

lemma map_inv_main:
  assumes inv: "map_inv its cap fn zero s"
    and t: "workers t = workers s" "results t = results s" "errs t = errs s" "sem t = sem s" "wg t = wg s"
    and c: "ctxerr t = ctxerr s \<or> ctxerr s = None \<and> ctxerr t \<in> {Some CtxCanceled, Some CtxDeadlineExceeded}"
    and main: "main_ok (length its) t (main t)"
  shows "map_inv its cap fn zero t"
proof -
  have "slot_ok fn zero (ctxerr t) (its ! i) (workers s ! i) (results s ! i) (errs s ! i)"
    if "i < length its" for i
    using inv that c slot_ok_ctx [of fn zero "its ! i"] unfolding map_inv_def by metis
  with inv t c main show ?thesis unfolding map_inv_def by auto
qed

lemma map_inv_select:
  assumes inv: "map_inv its cap fn zero s" and m: "main s = MAcquire i" and room: "sem s < cap"
  shows "map_inv its cap fn zero (s\<lparr>main := MCheck (i + 1), sem := sem s + 1, wg := wg s + 1,
      workers := (workers s)[i := Spawned]\<rparr>)" (is "map_inv _ _ _ _ ?t")
proof -
  let ?n = "length its"
  have len: "length (workers s) = ?n"
    and sem0: "sem s = count_below ?n (\<lambda>j. holds_slot (workers s ! j))"
    and wg0: "wg s = count_below ?n (\<lambda>j. counted (workers s ! j))"
    and slots: "\<And>j. j < ?n \<Longrightarrow>
      slot_ok fn zero (ctxerr s) (its ! j) (workers s ! j) (results s ! j) (errs s ! j)"
    and launched: "launched_to ?n (workers s) i" "i < ?n"
    using inv m by (simp_all add: map_inv_def)
  have ns: "workers s ! i = NotStarted" using launched by (auto simp: launched_to_def)
  have "sem s + 1 = count_below ?n (\<lambda>j. holds_slot ((workers s)[i := Spawned] ! j))"
    unfolding sem0
    by (rule count_up [OF _ _ launched(2) len [symmetric]]) (simp_all add: ns holds_slot_def)
  moreover have "wg s + 1 = count_below ?n (\<lambda>j. counted ((workers s)[i := Spawned] ! j))"
    unfolding wg0
    by (rule count_up [OF _ _ launched(2) len [symmetric]]) (simp_all add: ns counted_def)
  moreover have "slot_ok fn zero (ctxerr s) (its ! j) ((workers s)[i := Spawned] ! j) (results s ! j) (errs s ! j)"
    if "j < ?n" for j
    using slots [OF that] slots [OF launched(2)] ns len that by (cases "j = i") (auto simp: slot_ok_def)
  moreover have "launched_to ?n ((workers s)[i := Spawned]) (Suc i)"
    using launched len by (intro launched_next) simp_all
  ultimately show ?thesis using inv room unfolding map_inv_def by simp
qed

lemma map_step_inv:
  assumes step: "map_step its cap fn s t" and inv: "map_inv its cap fn zero s"
  shows "map_inv its cap fn zero t"
proof -
  have main: "main_ok (length its) s (main s)" and len: "length (workers s) = length its"
    and slots: "\<And>j. j < length its \<Longrightarrow>
      slot_ok fn zero (ctxerr s) (its ! j) (workers s ! j) (results s ! j) (errs s ! j)"
    using inv by (simp_all add: map_inv_def)
  from step show ?thesis
  proof cases
    case (ctx_done e)
    with main show ?thesis by (intro map_inv_main [OF inv]) (cases "main s"; auto)+
  next
    case (loop_end i)
    with main have "launched_to (length its) (workers s) (length its)"
      by (auto simp: launched_to_def)
    with loop_end show ?thesis by (intro map_inv_main [OF inv]) auto
  next
    case (loop_break i)
    with main show ?thesis by (intro map_inv_main [OF inv]) auto
  next
    case (loop_select i)
    with main show ?thesis by (intro map_inv_main [OF inv]) auto
  next
    case (select_done i)
    with main show ?thesis by (intro map_inv_main [OF inv]) auto
  next
    case (select_sem i)
    with map_inv_select [OF inv] show ?thesis by simp
  next
    case (worker_skip i e)
    with slots [of i] len show ?thesis
      by (intro map_inv_worker [OF inv, of i Finishing _ "results s ! i" "Some e"])
         (auto simp: slot_ok_def holds_slot_def counted_def)
  next
    case (worker_call i)
    with slots [of i] len show ?thesis
      by (intro map_inv_worker [OF inv, of i Running _ "results s ! i" "errs s ! i"])
         (auto simp: slot_ok_def holds_slot_def counted_def, metis list_update_id)
  next
    case (worker_return i r err)
    then show ?thesis
      by (intro map_inv_worker [OF inv, of i Finishing _ r err])
         (auto simp: slot_ok_def holds_slot_def counted_def)
  next
    case (worker_panic i v)
    with slots [of i] len show ?thesis
      by (intro map_inv_worker [OF inv, of i Finishing _ "results s ! i" "Some (PanicError v)"])
         (auto simp: slot_ok_def holds_slot_def counted_def)
  next
    case (worker_release i)
    with slots [of i] len show ?thesis
      by (intro map_inv_worker [OF inv, of i Released _ "results s ! i" "errs s ! i"])
         (auto simp: slot_ok_def holds_slot_def counted_def)
  next
    case (worker_done i)
    have "0 < wg s"
      using worker_done len inv count_below_eq_0 [of "length its" "\<lambda>j. counted (workers s ! j)"]
      by (auto simp: map_inv_def counted_def intro!: gr0I)
    with worker_done slots [of i] len show ?thesis
      by (intro map_inv_worker [OF inv, of i Finished _ "results s ! i" "errs s ! i"])
         (auto simp: slot_ok_def holds_slot_def counted_def)
  next
    case map_return
    with main show ?thesis by (intro map_inv_main [OF inv]) auto
  qed
qed

interpretation map_sys: inductive_invariant "map_init its zero" "map_step its cap fn"
  "map_inv its cap fn zero" for its zero cap fn
  by unfold_locales (fact map_init_inv, fact map_step_inv)

section \<open>Termination of Map\<close>

fun worker_left :: "worker \<Rightarrow> nat" where
  "worker_left NotStarted = 5"
| "worker_left Spawned = 4"
| "worker_left Running = 3"
| "worker_left Finishing = 2"
| "worker_left Released = 1"
| "worker_left Finished = 0"

fun main_left :: "nat \<Rightarrow> map_main \<Rightarrow> nat" where
  "main_left n (MCheck i) = 2 * (n - i) + 3"
| "main_left n (MAcquire i) = 2 * (n - i) + 2"
| "main_left n MWait = 1"
| "main_left n (MReturned err) = 0"

definition map_left :: "nat \<Rightarrow> 'r map_sys \<Rightarrow> nat" where
  "map_left n s = main_left n (main s) + sum_list (map worker_left (workers s))
     + (if ctxerr s = None then 1 else 0)"

lemma worker_left_update:
  "i < length ws \<Longrightarrow> worker_left w < worker_left (ws ! i) \<Longrightarrow>
   sum_list (map worker_left (ws[i := w])) < sum_list (map worker_left ws)"
proof (induction ws arbitrary: i)
  case (Cons a ws)
  then show ?case by (cases i) auto
qed simp

lemma map_step_decreases:
  assumes "map_step its cap fn s t" "map_inv its cap fn zero s"
  shows "map_left (length its) t < map_left (length its) s"
  using assms(1)
proof cases
  case (select_sem i)
  with assms(2) have "i < length its" "i < length (workers s)" "workers s ! i = NotStarted"
    by (auto simp: map_inv_def launched_to_def)
  with select_sem worker_left_update [of i "workers s" Spawned] show ?thesis
    by (simp add: map_left_def)
qed (auto simp: map_left_def intro!: worker_left_update)

interpretation map_term: terminating_system "map_init its zero" "map_step its cap fn"
  "map_left (length its)" for its zero cap fn
  by unfold_locales (blast dest: map_sys.reachable_inv map_step_decreases)

text \<open>While \<open>Map\<close> has not returned, the caller or one of its goroutines can move.\<close>

lemma worker_progress:
  assumes "i < length (workers s)" "counted (workers s ! i)" "fn (its ! i) \<noteq> {}"
    "holds_slot (workers s ! i) \<Longrightarrow> 0 < sem s"
  shows "\<exists>t. map_step its cap fn s t"
proof -
  consider "workers s ! i = Spawned" | "workers s ! i = Running" | "workers s ! i = Finishing"
    | "workers s ! i = Released"
    using assms(2) by (auto simp: counted_def)
  then show ?thesis
  proof cases
    case 1
    then show ?thesis using assms(1)
      by (cases "ctxerr s") (blast intro: map_step.worker_call map_step.worker_skip)+
  next
    case 2
    from assms(3) obtain out where "out \<in> fn (its ! i)" by blast
    then show ?thesis using 2 assms(1)
      by (cases out) (auto intro: map_step.worker_return map_step.worker_panic)
  next
    case 3
    then have "0 < sem s" using assms(4) by (simp add: holds_slot_def)
    with 3 assms(1) show ?thesis by (blast intro: map_step.worker_release)
  next
    case 4
    then show ?thesis using assms(1) by (blast intro: map_step.worker_done)
  qed
qed

lemma map_progress:
  assumes inv: "map_inv its cap fn zero s" and "0 < cap" "\<And>x. x \<in> set its \<Longrightarrow> fn x \<noteq> {}"
    and "\<nexists>err. main s = MReturned err"
  shows "\<exists>t. map_step its cap fn s t"
proof -
  let ?n = "length its"
  have len: "length (workers s) = ?n" and sem0: "sem s = count_below ?n (\<lambda>j. holds_slot (workers s ! j))"
    and wg0: "wg s = count_below ?n (\<lambda>j. counted (workers s ! j))"
    using inv by (simp_all add: map_inv_def)
  have holder: "\<exists>t. map_step its cap fn s t" if "i < ?n" "counted (workers s ! i)" for i
    using that len assms(3) sem0 count_below_eq_0 [of ?n "\<lambda>j. holds_slot (workers s ! j)"]
    by (intro worker_progress [of i]) auto
  show ?thesis
  proof (cases "main s")
    case (MCheck i)
    then show ?thesis
      by (cases "i < ?n"; cases "ctxerr s")
         (blast intro: map_step.loop_end map_step.loop_break map_step.loop_select)+
  next
    case (MAcquire i)
    show ?thesis
    proof (cases "sem s < cap")
      case True
      with MAcquire show ?thesis by (blast intro: map_step.select_sem)
    next
      case False
      with assms(2) sem0 obtain j where "j < ?n" "holds_slot (workers s ! j)"
        using count_below_eq_0 [of ?n "\<lambda>j. holds_slot (workers s ! j)"] by auto
      then show ?thesis by (intro holder [of j]) (auto simp: holds_slot_def counted_def)
    qed
  next
    case MWait
    show ?thesis
    proof (cases "wg s = 0")
      case True
      with MWait show ?thesis by (blast intro: map_step.map_return)
    next
      case False
      with wg0 obtain j where "j < ?n" "counted (workers s ! j)"
        using count_below_eq_0 [of ?n "\<lambda>j. counted (workers s ! j)"] by auto
      then show ?thesis by (rule holder)
    qed
  qed (use assms(4) in blast)
qed

lemma capacity_pos: "0 < capacity c"
  by (simp add: capacity_def)

text \<open>What the invariant says of a returned call.\<close>

lemma map_returned:
  assumes "map_inv its cap fn zero s" "main s = MReturned err"
  obtains k c where "launched_to (length its) (workers s) k" "k = length its \<or> c \<noteq> None"
    "c = None \<or> c = ctxerr s" "err = map_error (errs s) c"
    "\<And>i. i < length its \<Longrightarrow> workers s ! i = (if i < k then Finished else NotStarted)"
proof -
  from assms obtain k c where *: "launched_to (length its) (workers s) k" "k = length its \<or> c \<noteq> None"
    "c = None \<or> c = ctxerr s" "err = map_error (errs s) c" and wg: "wg s = 0"
    and wg0: "wg s = count_below (length its) (\<lambda>j. counted (workers s ! j))"
    by (auto simp: map_inv_def)
  have "workers s ! i = (if i < k then Finished else NotStarted)" if i: "i < length its" for i
  proof -
    have "\<not> counted (workers s ! i)"
      using wg0 wg i count_below_eq_0 [of "length its" "\<lambda>j. counted (workers s ! j)"] by simp
    with *(1) i show ?thesis
      by (cases "workers s ! i") (auto simp: counted_def launched_to_def)
  qed
  with * that show ?thesis by blast
qed

section \<open>Group and Fan\<close>

text \<open>
  The specification: a call that returns an error, or panics, owes the caller that error, or a
  \<open>PanicError\<close> of the value it panicked with. It does not mention what the workers append.
\<close>

definition owed :: "gerror option outcome \<Rightarrow> gerror option" where
  "owed out = (case out of Returns err \<Rightarrow> err | Panics v \<Rightarrow> Some (PanicError v))"

definition collected :: "gerror option outcome multiset \<Rightarrow> gerror multiset" where
  "collected M = image_mset (the \<circ> owed) (filter_mset (\<lambda>out. owed out \<noteq> None) M)"

lemma worker_error_owed: "mset (worker_error out) = (case owed out of None \<Rightarrow> {#} | Some e \<Rightarrow> {#e#})"
  by (simp add: worker_error_def owed_def split: outcome.split option.split)

lemma collected_simps [simp]:
  "collected {#} = {#}" "collected (add_mset out M) = mset (worker_error out) + collected M"
  by (simp_all add: collected_def worker_error_owed split: option.split)

lemma collected_remove:
  "out \<in># M \<Longrightarrow> mset (worker_error out) + collected (M - {#out#}) = collected M"
  by (metis collected_simps(2) insert_DiffM)

text \<open>Nothing is lost and nothing is invented; \<open>x\<close> is what was appended outside the workers.\<close>

definition group_inv :: "gerror list \<Rightarrow> group_sys \<Rightarrow> bool" where
  "group_inv x g \<longleftrightarrow> gr_wg g = size (gr_running g) + gr_finishing g
     \<and> mset (gr_errs g) + collected (gr_running g) = collected (gr_launched g) + mset x"

lemma NewGroup_inv [simp]: "group_inv [] NewGroup"
  by (simp add: group_inv_def NewGroup_def)

lemma group_step_inv:
  assumes "group_step g g'" "group_inv x g"
  shows "group_inv x g'"
  using assms
proof cases
  case (group_run out)
  have "size (gr_running g) = Suc (size (gr_running g - {#out#}))"
    using group_run by (metis insert_DiffM size_add_mset)
  with group_run assms(2) collected_remove [OF group_run(2)] show ?thesis
    by (simp add: group_inv_def add.assoc)
qed (auto simp: group_inv_def)

interpretation group: inductive_invariant "\<lambda>g. g = NewGroup" group_step "group_inv []"
  by unfold_locales (auto intro: group_step_inv)

lemma group_inv_quiet:
  "group_inv x g \<Longrightarrow> gr_wg g = 0 \<Longrightarrow> gr_running g = {#} \<and> mset (gr_errs g) = collected (gr_launched g) + mset x"
  by (auto simp: group_inv_def)

lemma group_progress:
  assumes "group_inv x g" "gr_wg g \<noteq> 0"
  shows "\<exists>g'. group_step g g' \<and> gr_launched g' = gr_launched g
    \<and> 2 * size (gr_running g') + gr_finishing g' < 2 * size (gr_running g) + gr_finishing g"
proof (cases "gr_running g = {#}")
  case True
  with assms have "gr_finishing g > 0" by (auto simp: group_inv_def)
  then have "group_step g (g\<lparr>gr_wg := gr_wg g - 1, gr_finishing := gr_finishing g - 1\<rparr>)"
    by (rule group_step.group_done)
  with True \<open>gr_finishing g > 0\<close> show ?thesis
    by (intro exI [where x = "g\<lparr>gr_wg := gr_wg g - 1, gr_finishing := gr_finishing g - 1\<rparr>"]) simp
next
  case False
  then obtain out where out: "out \<in># gr_running g" by blast
  then have "0 < size (gr_running g)" by (metis False nonempty_has_size)
  then have "2 * (size (gr_running g) - 1) + (gr_finishing g + 1) < 2 * size (gr_running g) + gr_finishing g"
    by simp
  with group_step.group_run [OF out] show ?thesis
    by (intro exI [where x = "g\<lparr>gr_errs := gr_errs g @ worker_error out,
         gr_running := gr_running g - {#out#}, gr_finishing := gr_finishing g + 1\<rparr>"])
       (simp add: size_Diff_singleton [OF out])
qed









section \<open>Properties\<close>

text \<open>A run of \<open>Map\<close> over one item, up to the call of the function, and from there to the return.\<close>

definition one_item :: "nat map_sys" where
  "one_item = \<lparr>main = MCheck 0, results = [0], errs = [None], sem = 0, wg = 0, workers = [NotStarted],
     ctxerr = None\<rparr>"

lemma one_item_running:
  assumes "0 < cap"
  shows "reachable (map_init [x] 0) (map_step [x] cap fn)
     (one_item\<lparr>main := MWait, sem := 1, wg := 1, workers := [Running]\<rparr>)"
proof -
  let ?R = "map_step [x] cap fn" and ?s = one_item
  have "reachable (map_init [x] 0) ?R ?s"
    by (rule reachable_init) (simp add: map_init_def one_item_def)
  moreover have "?R ?s (?s\<lparr>main := MAcquire 0\<rparr>)"
    using map_step.loop_select [of ?s 0 "[x]" cap fn] by (simp add: one_item_def)
  moreover have "?R (?s\<lparr>main := MAcquire 0\<rparr>)
      (?s\<lparr>main := MCheck 1, sem := 1, wg := 1, workers := [Spawned]\<rparr>)"
    using map_step.select_sem [of "?s\<lparr>main := MAcquire 0\<rparr>" 0 cap "[x]" fn] assms by (simp add: one_item_def)
  moreover have "?R (?s\<lparr>main := MCheck 1, sem := 1, wg := 1, workers := [Spawned]\<rparr>)
      (?s\<lparr>main := MCheck 1, sem := 1, wg := 1, workers := [Running]\<rparr>)"
    using map_step.worker_call [of 0 "?s\<lparr>main := MCheck 1, sem := 1, wg := 1, workers := [Spawned]\<rparr>"]
    by (simp add: one_item_def)
  moreover have "?R (?s\<lparr>main := MCheck 1, sem := 1, wg := 1, workers := [Running]\<rparr>)
      (?s\<lparr>main := MWait, sem := 1, wg := 1, workers := [Running]\<rparr>)"
    using map_step.loop_end [of "?s\<lparr>main := MCheck 1, sem := 1, wg := 1, workers := [Running]\<rparr>" 1 "[x]" cap fn]
    by (simp add: one_item_def)
  ultimately show ?thesis by (meson reachable_step)
qed

lemma one_item_returned:
  assumes "reachable (map_init [x] 0) (map_step [x] cap fn)
     (one_item\<lparr>main := MWait, results := [r], errs := [e], sem := 1, wg := 1, workers := [Finishing]\<rparr>)"
  shows "reachable (map_init [x] 0) (map_step [x] cap fn)
     (one_item\<lparr>main := MReturned (map_error [e] None), results := [r], errs := [e], workers := [Finished]\<rparr>)"
proof -
  let ?R = "map_step [x] cap fn"
  let ?s1 = "one_item\<lparr>main := MWait, results := [r], errs := [e], sem := 1, wg := 1, workers := [Finishing]\<rparr>"
  let ?s2 = "one_item\<lparr>main := MWait, results := [r], errs := [e], sem := 0, wg := 1, workers := [Released]\<rparr>"
  let ?s3 = "one_item\<lparr>main := MWait, results := [r], errs := [e], workers := [Finished]\<rparr>"
  have "?R ?s1 ?s2"
    using map_step.worker_release [of 0 ?s1 "[x]" cap fn] by (simp add: one_item_def)
  moreover have "?R ?s2 ?s3"
    using map_step.worker_done [of 0 ?s2 "[x]" cap fn] by (simp add: one_item_def)
  moreover have "?R ?s3 (?s3\<lparr>main := MReturned (map_error [e] None)\<rparr>)"
    using map_step.map_return [of ?s3 "[x]" cap fn] by (simp add: one_item_def)
  ultimately have "reachable (map_init [x] 0) ?R (?s3\<lparr>main := MReturned (map_error [e] None)\<rparr>)"
    using assms by (meson reachable_step)
  then show ?thesis by (simp add: one_item_def)
qed

text \<open>
  C3: bounded concurrency of \<open>Map\<close>. However the goroutines interleave, at most \<open>concurrency\<close> calls
  of \<open>fn\<close> are in progress at any moment, or one if \<open>concurrency\<close> is not positive.
\<close>

theorem map_bounded_concurrency:
  assumes "reachable (map_init its zero) (map_step its (capacity concurrency) fn) s"
  shows "int (card {i. i < length its \<and> workers s ! i = Running}) \<le> max 1 concurrency"
proof -
  let ?n = "length its"
  from map_sys.reachable_inv [OF assms]
  have "count_below ?n (\<lambda>i. holds_slot (workers s ! i)) \<le> capacity concurrency"
    by (simp add: map_inv_def)
  moreover have "card {i. i < ?n \<and> workers s ! i = Running} \<le> card {i. i < ?n \<and> holds_slot (workers s ! i)}"
    by (intro card_mono) (auto simp: holds_slot_def)
  ultimately show ?thesis by (auto simp: count_below_card capacity_def split: if_splits)
qed

theorem map_bounded_concurrency_witness:
  "int (card {i. i < length [7::nat] \<and>
     workers (one_item\<lparr>main := MWait, sem := 1, wg := 1, workers := [Running]\<rparr>) ! i = Running}) \<le> max 1 (- 3)"
proof -
  from map_bounded_concurrency [OF one_item_running [OF capacity_pos]] show ?thesis .
qed

text \<open>
  C2: a nil error of \<open>Map\<close> means the whole job was done: every item was passed to \<open>fn\<close>, every call
  returned without error, and the results stand in the order of the items.
\<close>

theorem map_success_is_complete:
  assumes "reachable (map_init its zero) (map_step its (capacity concurrency) fn) s"
    and "main s = MReturned None"
  shows "list_all2 (\<lambda>x r. Returns (r, None) \<in> fn x) its (results s) \<and> (\<forall>w \<in> set (workers s). w = Finished)"
proof -
  note inv = map_sys.reachable_inv [OF assms(1)]
  obtain k c where kc: "k = length its \<or> c \<noteq> None" "None = map_error (errs s) c"
    and fin: "\<And>i. i < length its \<Longrightarrow> workers s ! i = (if i < k then Finished else NotStarted)"
    using map_returned [OF inv assms(2)] by metis
  from kc(2) have "c = None" and none: "\<And>e. Some e \<notin> set (errs s)"
    using map_error_None [of "errs s" c] by simp_all
  with kc(1) fin have done_i: "i < length its \<Longrightarrow> workers s ! i = Finished" for i by simp
  have len: "length (results s) = length its" "length (errs s) = length its" "length (workers s) = length its"
    and slots: "\<And>i. i < length its \<Longrightarrow>
      slot_ok fn zero (ctxerr s) (its ! i) (workers s ! i) (results s ! i) (errs s ! i)"
    using inv by (simp_all add: map_inv_def)
  have "Returns (results s ! i, None) \<in> fn (its ! i)" if i: "i < length its" for i
  proof -
    have "errs s ! i = None" using none i len by (metis not_Some_eq nth_mem)
    with slots [OF i] done_i [OF i] show ?thesis by (auto simp: slot_ok_def)
  qed
  with done_i len show ?thesis by (auto simp: list_all2_conv_all_nth in_set_conv_nth)
qed

theorem map_success_is_complete_witness:
  "list_all2 (\<lambda>x r. Returns (r, None) \<in> {Returns (x + 1, None)}) [7] [8::nat]"
proof -
  let ?fn = "\<lambda>x::nat. {Returns (x + 1, None :: gerror option)}"
  let ?s = "one_item\<lparr>main := MWait, sem := 1, wg := 1, workers := [Running]\<rparr>"
  have "map_step [7] (capacity 1) ?fn ?s
      (one_item\<lparr>main := MWait, results := [8], errs := [None], sem := 1, wg := 1, workers := [Finishing]\<rparr>)"
    using map_step.worker_return [of 0 ?s 8 None ?fn "[7]" "capacity 1"] by (simp add: one_item_def)
  from map_success_is_complete [OF one_item_returned [OF reachable_step [OF one_item_running [OF capacity_pos] this]]]
  show ?thesis by (simp add: map_error_def)
qed

text \<open>The error a call of \<open>fn\<close> gives its slot: the one it returned, or its panic.\<close>

definition item_error :: "('r \<times> gerror option) outcome set \<Rightarrow> gerror \<Rightarrow> bool" where
  "item_error outs e \<longleftrightarrow> (\<exists>r. Returns (r, Some e) \<in> outs) \<or> (\<exists>v. Panics v \<in> outs \<and> e = PanicError v)"

lemma first_error_index:
  "first_error es = Some e \<longleftrightarrow> (\<exists>i < length es. es ! i = Some e \<and> (\<forall>j < i. es ! j = None))"
proof (induction es rule: first_error.induct)
  case (2 es)
  then show ?case by (simp add: Ex_less_Suc2 All_less_Suc2)
next
  case (3 err es)
  then show ?case by (auto simp: Ex_less_Suc2 All_less_Suc2)
qed simp

text \<open>The step with which \<open>Map\<close> returns, and where the errors of its slots come from by then.\<close>

lemma map_return_step:
  assumes "map_step its cap fn s t" "main s \<noteq> main t" "main t = MReturned r"
  shows "r = map_error (errs s) (ctxerr s)" "errs t = errs s" "ctxerr t = ctxerr s"
  using assms by (auto elim!: map_step.cases)

lemma returned_slot:
  assumes "map_inv its cap fn zero s" "main s = MReturned r" "i < length its" "errs s ! i = Some d"
  shows "ctxerr s = Some d \<or> item_error (fn (its ! i)) d"
proof -
  obtain k where "workers s ! i = (if i < k then Finished else NotStarted)"
    using map_returned [OF assms(1,2)] assms(3) by metis
  moreover have "slot_ok fn zero (ctxerr s) (its ! i) (workers s ! i) (results s ! i) (errs s ! i)"
    using assms(1,3) by (simp add: map_inv_def)
  ultimately show ?thesis using assms(4) by (auto simp: slot_ok_def item_error_def split: if_splits)
qed

text \<open>
  C17: which error \<open>Map\<close> returns, at the step at which it returns one. If some item's call gave an error
  other than the two of contexts, it is the one of the first such item, which is what its call returned
  or its panic. Otherwise it is the context's error if the context is done by then, and otherwise the
  error of the first item that has one.
\<close>

theorem map_error_is_first_specific:
  assumes "reachable (map_init its zero) (map_step its (capacity concurrency) fn) s"
    and "map_step its (capacity concurrency) fn s t" "main s \<noteq> main t" "main t = MReturned (Some e)"
  shows "if \<exists>d. Some d \<in> set (errs t) \<and> specific d
    then specific e \<and> (\<exists>i < length its. errs t ! i = Some e \<and> item_error (fn (its ! i)) e
           \<and> (\<forall>j < i. \<forall>d. errs t ! j = Some d \<longrightarrow> \<not> specific d))
    else case ctxerr t of
           Some c \<Rightarrow> e = c
         | None \<Rightarrow> \<exists>i < length its. errs t ! i = Some e \<and> item_error (fn (its ! i)) e
             \<and> (\<forall>j < i. errs t ! j = None)"
proof -
  have inv: "map_inv its (capacity concurrency) fn zero t"
    by (rule map_sys.reachable_inv [OF reachable_step [OF assms(1,2)]])
  have me: "map_error (errs t) (ctxerr t) = Some e"
    using map_return_step [OF assms(2-4)] by simp
  have len: "length (errs t) = length its"
    and ctx: "ctxerr t \<in> {None, Some CtxCanceled, Some CtxDeadlineExceeded}"
    using inv by (simp_all add: map_inv_def)
  note slot = returned_slot [OF inv assms(4)]
  show ?thesis
  proof (cases "first_specific (errs t)")
    case (Some d)
    with me have e: "d = e" by (simp add: map_error_def)
    from Some obtain i where i: "i < length its" "errs t ! i = Some e" "specific e"
      "\<forall>j < i. \<forall>d. errs t ! j = Some d \<longrightarrow> \<not> specific d"
      unfolding e first_specific_Some len by blast
    from slot [OF i(1,2)] ctx i(3) have "item_error (fn (its ! i)) e" by (auto simp: specific_def)
    moreover have "Some e \<in> set (errs t)" using i(1,2) len by (metis nth_mem)
    ultimately show ?thesis using i by auto
  next
    case None
    then have no: "(\<exists>d. Some d \<in> set (errs t) \<and> specific d) = False" by (auto simp: first_specific_None)
    have "case ctxerr t of
           Some c \<Rightarrow> e = c
         | None \<Rightarrow> \<exists>i < length its. errs t ! i = Some e \<and> item_error (fn (its ! i)) e
             \<and> (\<forall>j < i. errs t ! j = None)"
    proof (cases "ctxerr t")
      case None
      with me \<open>first_specific (errs t) = None\<close> have "first_error (errs t) = Some e"
        by (simp add: map_error_def)
      then obtain i where "i < length its" "errs t ! i = Some e" "\<forall>j < i. errs t ! j = None"
        unfolding first_error_index len by blast
      with slot None show ?thesis by auto
    qed (use me \<open>first_specific (errs t) = None\<close> in \<open>simp add: map_error_def\<close>)
    then show ?thesis unfolding no if_False .
  qed
qed

text \<open>
  Two items, both cancelled by their own calls with different context errors, with the context still
  alive: the first one's error is returned.
\<close>

definition two_contexts :: "nat map_sys" where
  "two_contexts = \<lparr>main = MCheck 0, results = [0, 0], errs = [None, None], sem = 0, wg = 0,
     workers = [NotStarted, NotStarted], ctxerr = None\<rparr>"

definition own_context :: "nat \<Rightarrow> (nat \<times> gerror option) outcome set" where
  "own_context x = {Returns (0, Some (if x = 7 then CtxDeadlineExceeded else CtxCanceled))}"

lemma own_context_run:
  "\<exists>s t. reachable (map_init [7, 8::nat] 0) (map_step [7, 8] (capacity 2) own_context) s
     \<and> map_step [7, 8] (capacity 2) own_context s t \<and> main s = MWait
     \<and> main t = MReturned (Some CtxDeadlineExceeded) \<and> ctxerr t = None
     \<and> errs t = [Some CtxDeadlineExceeded, Some CtxCanceled]"
proof -
  let ?R = "map_step [7, 8] (capacity 2) own_context"
  let ?I = "map_init [7, 8 :: nat] (0 :: nat)"
  let ?n = two_contexts
  note d = two_contexts_def own_context_def capacity_def
  let ?s1 = "?n\<lparr>main := MAcquire 0\<rparr>"
  let ?s2 = "?n\<lparr>main := MCheck 1, sem := 1, wg := 1, workers := [Spawned, NotStarted]\<rparr>"
  let ?s3 = "?n\<lparr>main := MAcquire 1, sem := 1, wg := 1, workers := [Spawned, NotStarted]\<rparr>"
  let ?s4 = "?n\<lparr>main := MCheck 2, sem := 2, wg := 2, workers := [Spawned, Spawned]\<rparr>"
  let ?s5 = "?n\<lparr>main := MWait, sem := 2, wg := 2, workers := [Spawned, Spawned]\<rparr>"
  let ?s6 = "?n\<lparr>main := MWait, sem := 2, wg := 2, workers := [Running, Spawned]\<rparr>"
  let ?s7 = "?n\<lparr>main := MWait, sem := 2, wg := 2, workers := [Running, Running]\<rparr>"
  let ?s8 = "?n\<lparr>main := MWait, sem := 2, wg := 2, workers := [Running, Finishing], errs := [None, Some CtxCanceled]\<rparr>"
  let ?e = "?n\<lparr>main := MWait, errs := [Some CtxDeadlineExceeded, Some CtxCanceled]\<rparr>"
  let ?s9 = "?e\<lparr>sem := 2, wg := 2, workers := [Finishing, Finishing]\<rparr>"
  let ?s10 = "?e\<lparr>sem := 1, wg := 2, workers := [Released, Finishing]\<rparr>"
  let ?s11 = "?e\<lparr>sem := 0, wg := 2, workers := [Released, Released]\<rparr>"
  let ?s12 = "?e\<lparr>sem := 0, wg := 1, workers := [Finished, Released]\<rparr>"
  let ?s13 = "?e\<lparr>sem := 0, wg := 0, workers := [Finished, Finished]\<rparr>"
  have "reachable ?I ?R ?n" by (rule reachable_init) (auto simp: map_init_def d)
  moreover have "?R ?n ?s1" using map_step.loop_select [of ?n 0 "[7,8]"] by (simp add: d)
  moreover have "?R ?s1 ?s2" using map_step.select_sem [of ?s1 0 "capacity 2"] by (simp add: d)
  moreover have "?R ?s2 ?s3" using map_step.loop_select [of ?s2 1 "[7,8]"] by (simp add: d)
  moreover have "?R ?s3 ?s4" using map_step.select_sem [of ?s3 1 "capacity 2"] by (simp add: d eval_nat_numeral)
  moreover have "?R ?s4 ?s5" using map_step.loop_end [of ?s4 2 "[7,8]"] by (simp add: d)
  moreover have "?R ?s5 ?s6" using map_step.worker_call [of 0 ?s5] by (simp add: d)
  moreover have "?R ?s6 ?s7" using map_step.worker_call [of 1 ?s6] by (simp add: d)
  moreover have "?R ?s7 ?s8" using map_step.worker_return [of 1 ?s7 0 "Some CtxCanceled" own_context "[7,8]"] by (simp add: d)
  moreover have "?R ?s8 ?s9" using map_step.worker_return [of 0 ?s8 0 "Some CtxDeadlineExceeded" own_context "[7,8]"] by (simp add: d)
  moreover have "?R ?s9 ?s10" using map_step.worker_release [of 0 ?s9] by (simp add: d)
  moreover have "?R ?s10 ?s11" using map_step.worker_release [of 1 ?s10] by (simp add: d)
  moreover have "?R ?s11 ?s12" using map_step.worker_done [of 0 ?s11] by (simp add: d)
  moreover have "?R ?s12 ?s13" using map_step.worker_done [of 1 ?s12] by (simp add: d)
  ultimately have "reachable ?I ?R ?s13" by (meson reachable_step)
  moreover have "?R ?s13 (?s13\<lparr>main := MReturned (Some CtxDeadlineExceeded)\<rparr>)"
    using map_step.map_return [of ?s13] by (simp add: d map_error_def specific_def)
  ultimately show ?thesis
    by (intro exI [of _ ?s13] exI [of _ "?s13\<lparr>main := MReturned (Some CtxDeadlineExceeded)\<rparr>"]) (simp add: two_contexts_def)
qed

theorem map_error_is_first_specific_witness:
  "\<exists>i < length [7::nat, 8]. item_error (own_context ([7, 8] ! i)) CtxDeadlineExceeded \<and> i = 0"
proof -
  obtain s t where st: "reachable (map_init [7, 8::nat] 0) (map_step [7, 8] (capacity 2) own_context) s"
    "map_step [7, 8] (capacity 2) own_context s t" "main s = MWait"
    "main t = MReturned (Some CtxDeadlineExceeded)" "ctxerr t = None"
    "errs t = [Some CtxDeadlineExceeded, Some CtxCanceled]"
    using own_context_run by blast
  then have none: "(\<exists>d. Some d \<in> set (errs t) \<and> specific d) = False" by (auto simp: specific_def)
  have "main s \<noteq> main t" using st(3,4) by simp
  from map_error_is_first_specific [OF st(1,2) this st(4), unfolded none if_False st(5) option.case]
  obtain i where "i < length [7::nat, 8]" "errs t ! i = Some CtxDeadlineExceeded"
    "item_error (own_context ([7, 8] ! i)) CtxDeadlineExceeded" by blast
  with st(6) show ?thesis by (intro exI [of _ i]) (auto simp: less_Suc_eq)
qed

text \<open>
  C12: \<open>Map\<close> always returns, if the calls of \<open>fn\<close> do. Every run that goes on while some goroutine can
  move reaches the return, whatever the scheduler, the context and the calls do: the semaphore, the
  wait group and the \<open>select\<close> never deadlock.
\<close>

theorem map_always_returns:
  assumes "map_init its zero (run 0)" "\<forall>x \<in> set its. fn x \<noteq> {}"
    and "\<And>k. map_step its (capacity concurrency) fn (run k) (run (Suc k))
      \<or> run (Suc k) = run k \<and> (\<nexists>t. map_step its (capacity concurrency) fn (run k) t)"
  shows "\<exists>k err. main (run k) = MReturned err"
proof -
  let ?R = "map_step its (capacity concurrency) fn"
  have reach: "reachable (map_init its zero) ?R (run k)" for k
    by (induction k) (metis assms(1,3) reachable.intros)+
  obtain k where "\<not> ?R (run k) (run (Suc k))"
    using map_term.no_infinite_run [of its zero run "capacity concurrency" fn] assms(1) by blast
  with assms(3) have "\<nexists>t. ?R (run k) t" by blast
  with map_progress [OF map_sys.reachable_inv [OF reach [of k]] capacity_pos] assms(2)
  show ?thesis by metis
qed

theorem map_always_returns_witness:
  "\<exists>k err. main ([one_item\<lparr>ctxerr := Some CtxCanceled\<rparr>, one_item\<lparr>ctxerr := Some CtxCanceled, main := MWait\<rparr>,
     one_item\<lparr>ctxerr := Some CtxCanceled, main := MReturned (Some CtxCanceled)\<rparr>] ! min k 2) = MReturned err"
proof -
  let ?l = "[one_item\<lparr>ctxerr := Some CtxCanceled\<rparr>, one_item\<lparr>ctxerr := Some CtxCanceled, main := MWait\<rparr>,
     one_item\<lparr>ctxerr := Some CtxCanceled, main := MReturned (Some CtxCanceled)\<rparr>]"
  let ?fn = "\<lambda>x::nat. {Returns (x + 1, None :: gerror option)}"
  let ?R = "map_step [7] (capacity 1) ?fn"
  have s0: "?R (?l ! 0) (?l ! 1)"
    using map_step.loop_break [of "?l ! 0" 0 "[7]" "capacity 1" ?fn] by (simp add: one_item_def)
  have s1: "?R (?l ! 1) (?l ! 2)"
    using map_step.map_return [of "?l ! 1" "[7]" "capacity 1" ?fn]
    by (simp add: one_item_def map_error_def)
  have s2: "\<not> ?R (?l ! 2) t" for t
    by (auto simp: one_item_def elim!: map_step.cases)
  have "?R (?l ! min k 2) (?l ! min (Suc k) 2)
      \<or> ?l ! min (Suc k) 2 = ?l ! min k 2 \<and> (\<nexists>t. ?R (?l ! min k 2) t)" for k
  proof -
    consider "k = 0" | "k = 1" | "2 \<le> k" by linarith
    then show ?thesis by cases (use s0 s1 s2 in \<open>simp_all add: min_def\<close>)
  qed
  moreover have "map_init [7] 0 (?l ! min 0 2)" by (simp add: map_init_def one_item_def)
  ultimately show ?thesis
    using map_always_returns [of "[7]" 0 "\<lambda>k. ?l ! min k 2" ?fn 1] by simp
qed

text \<open>
  C33: \<open>Group\<close> loses no error. When \<open>Wait\<close> returns, its errors are, up to order, those of all the
  functions given to \<open>Go\<close>, panics included; and while \<open>Wait\<close> blocks some goroutine can move, towards
  the moment it returns.
\<close>

theorem group_collects_all_errors:
  assumes "reachable (\<lambda>g. g = NewGroup) group_step g"
  shows "case Group_Wait g of
      Some es \<Rightarrow> mset es = collected (gr_launched g)
    | None \<Rightarrow> \<exists>g'. group_step g g' \<and> gr_launched g' = gr_launched g
        \<and> 2 * size (gr_running g') + gr_finishing g' < 2 * size (gr_running g) + gr_finishing g"
proof -
  note inv = group.reachable_inv [OF assms]
  show ?thesis
  proof (cases "gr_wg g = 0")
    case True
    with group_inv_quiet [OF inv] show ?thesis by (auto simp: Group_Wait_def)
  next
    case False
    with group_progress [OF inv] show ?thesis by (simp add: Group_Wait_def)
  qed
qed

theorem group_collects_all_errors_witness:
  "\<exists>g'. group_step (NewGroup\<lparr>gr_wg := 1, gr_running := {#Panics (PUser 1)#}, gr_launched := {#Panics (PUser 1)#}\<rparr>) g'"
proof -
  let ?g = "NewGroup\<lparr>gr_wg := 1, gr_running := {#Panics (PUser 1)#}, gr_launched := {#Panics (PUser 1)#}\<rparr>"
  have "group_step NewGroup ?g"
    using group_step.group_go [of NewGroup "Panics (PUser 1)"] by (simp add: NewGroup_def)
  then have "reachable (\<lambda>g. g = NewGroup) group_step ?g"
    by (blast intro: reachable.intros)
  from group_collects_all_errors [OF this] show ?thesis by (auto simp: Group_Wait_def)
qed



text \<open>
  A panic in a function started by \<open>Go\<close> or \<open>GoErr\<close> does not take the process down: \<open>GoErr\<close> sends
  exactly one value, so its buffered channel never blocks the goroutine, and \<open>Go\<close> ends normally unless
  the caller's own callback panics, which is called once, with the panic, and only then.
\<close>

theorem go_contains_panics:
  "GoErr_goroutine f = [case f of Returns err \<Rightarrow> err | Panics r \<Rightarrow> Some (PanicError r)]
   \<and> (snd (Go_goroutine fn cbs) = Returns ()
       \<or> (\<exists>cb r v. cbs \<noteq> [] \<and> hd cbs = Some cb \<and> fn = Panics r \<and> cb (PanicError r) = Panics v))
   \<and> fst (Go_goroutine fn cbs) =
       (case (fn, cbs) of (Panics r, Some cb # rest) \<Rightarrow> [PanicError r] | _ \<Rightarrow> [])"
proof -
  have u: "x = Returns () \<or> (\<exists>v. x = Panics v)" for x :: "unit outcome" by (cases x) auto
  show ?thesis
    using u by (auto simp: GoErr_goroutine_def Go_goroutine_def Let_def split: outcome.split list.split option.split)
qed

end
