(* ===== verification/Queue.thy ===== *)
theory Queue
  imports Async
begin

text \<open>
  \<open>async/queue.go\<close>: the task queue's server and client over asynq. asynq's server, mux and client are
  parameters: \<open>mux_handle\<close> registers a handler under a pattern, or panics as asynq does for a pattern it
  refuses; \<open>asynq_start\<close> hands the server its mux. A client pointer is nil, holds no asynq client, or
  holds one. The server is used from several goroutines: the theory ends with its steps.
\<close>

section \<open>The server\<close>

definition ErrClientNotInitialized :: gerror where
  "ErrClientNotInitialized = Sentinel ''async: queue client is not initialized''"

type_synonym ('c, 't) task_handler = "'c \<Rightarrow> 't \<Rightarrow> gerror option outcome"

record ('sv, 'mx) QueueServer =
  server :: 'sv
  mux :: 'mx
  started :: bool

definition NewQueueServer ::
    "('opt \<Rightarrow> 'cfg \<Rightarrow> 'sv) \<Rightarrow> 'mx \<Rightarrow> 'opt \<Rightarrow> 'cfg \<Rightarrow> ('sv, 'mx) QueueServer" where
  "NewQueueServer asynq_NewServer asynq_NewServeMux redisOpt cfg =
     \<lparr>server = asynq_NewServer redisOpt cfg, mux = asynq_NewServeMux, started = False\<rparr>"

definition recovering_handler :: "('c, 't) task_handler \<Rightarrow> ('c, 't) task_handler" where
  "recovering_handler handler ctx t =
     (case handler ctx t of
        Returns err \<Rightarrow> Returns err
      | Panics r \<Rightarrow> Returns (Some (PanicError r)))"

definition register_panic :: pvalue where
  "register_panic = PMsg ''asynq: cannot register handler after server has started''"

text \<open>The mutex is released by \<open>defer\<close>, however the function ends.\<close>

definition HandleFunc ::
    "('mx \<Rightarrow> string \<Rightarrow> ('c, 't) task_handler \<Rightarrow> 'mx outcome) \<Rightarrow> string \<Rightarrow> ('c, 't) task_handler
     \<Rightarrow> ('sv, 'mx) QueueServer \<Rightarrow> ('sv, 'mx) QueueServer outcome" where
  "HandleFunc mux_handle pattern handler q =
     (if started q then Panics register_panic
      else bind_outcome (mux_handle (mux q) pattern (recovering_handler handler))
             (\<lambda>m. Returns (q\<lparr>mux := m\<rparr>)))"

text \<open>\<open>Start\<close> marks the server under the mutex, and calls asynq after releasing it.\<close>

definition mark_started :: "('sv, 'mx) QueueServer \<Rightarrow> ('sv, 'mx) QueueServer" where
  "mark_started q = q\<lparr>started := True\<rparr>"

definition serve ::
    "('sv \<Rightarrow> 'mx \<Rightarrow> gerror option \<times> 'sv) \<Rightarrow> ('sv, 'mx) QueueServer \<Rightarrow> gerror option \<times> ('sv, 'mx) QueueServer" where
  "serve asynq_start q = (case asynq_start (server q) (mux q) of (err, sv) \<Rightarrow> (err, q\<lparr>server := sv\<rparr>))"

definition Queue_Start ::
    "('sv \<Rightarrow> 'mx \<Rightarrow> gerror option \<times> 'sv) \<Rightarrow> ('sv, 'mx) QueueServer \<Rightarrow> gerror option \<times> ('sv, 'mx) QueueServer" where
  "Queue_Start asynq_start q = serve asynq_start (mark_started q)"

definition Queue_Shutdown :: "('sv \<Rightarrow> 'sv) \<Rightarrow> ('sv, 'mx) QueueServer \<Rightarrow> ('sv, 'mx) QueueServer" where
  "Queue_Shutdown asynq_Shutdown q = q\<lparr>server := asynq_Shutdown (server q)\<rparr>"

definition Queue_Stop :: "('sv \<Rightarrow> 'sv) \<Rightarrow> ('sv, 'mx) QueueServer \<Rightarrow> ('sv, 'mx) QueueServer" where
  "Queue_Stop asynq_Shutdown q = Queue_Shutdown asynq_Shutdown q"

section \<open>The client\<close>

type_synonym 'cl queue_client = "'cl option option"

definition NewQueueClient :: "('opt \<Rightarrow> 'cl) \<Rightarrow> 'opt \<Rightarrow> 'cl queue_client" where
  "NewQueueClient asynq_NewClient redisOpt = Some (Some (asynq_NewClient redisOpt))"

definition Queue_Enqueue ::
    "('cl \<Rightarrow> 'task \<Rightarrow> gerror + 'info) \<Rightarrow> 'cl queue_client \<Rightarrow> 'task \<Rightarrow> gerror + 'info" where
  "Queue_Enqueue asynq_Enqueue c task =
     (case c of
        None \<Rightarrow> Inl ErrClientNotInitialized
      | Some None \<Rightarrow> Inl ErrClientNotInitialized
      | Some (Some client) \<Rightarrow> asynq_Enqueue client task)"

definition Queue_EnqueueContext ::
    "('cl \<Rightarrow> context_t \<Rightarrow> 'task \<Rightarrow> gerror + 'info) \<Rightarrow> 'cl queue_client \<Rightarrow> context_t \<Rightarrow> 'task \<Rightarrow> gerror + 'info" where
  "Queue_EnqueueContext asynq_EnqueueContext c ctx task =
     (case c of
        None \<Rightarrow> Inl ErrClientNotInitialized
      | Some None \<Rightarrow> Inl ErrClientNotInitialized
      | Some (Some client) \<Rightarrow> asynq_EnqueueContext client ctx task)"

definition Queue_Close :: "('cl \<Rightarrow> gerror option) \<Rightarrow> 'cl queue_client \<Rightarrow> gerror option" where
  "Queue_Close asynq_Close c =
     (case c of
        None \<Rightarrow> Some ErrClientNotInitialized
      | Some None \<Rightarrow> Some ErrClientNotInitialized
      | Some (Some client) \<Rightarrow> asynq_Close client)"

section \<open>Steps\<close>

text \<open>
  Any number of goroutines register handlers, start and stop the server. A critical section is one
  step; \<open>starting\<close> counts the calls of \<open>Start\<close> that have released the mutex and not yet reached asynq.
  Ghost fields: the handlers whose registration succeeded, and the muxes asynq has been handed.
\<close>

record ('sv, 'mx, 'c, 't) queue_sys =
  qs :: "('sv, 'mx) QueueServer"
  starting :: nat
  registered :: "(string \<times> ('c, 't) task_handler) list"
  handed :: "'mx list"

inductive queue_step ::
    "('mx \<Rightarrow> string \<Rightarrow> ('c, 't) task_handler \<Rightarrow> 'mx outcome) \<Rightarrow> ('sv \<Rightarrow> 'mx \<Rightarrow> gerror option \<times> 'sv)
     \<Rightarrow> ('sv \<Rightarrow> 'sv) \<Rightarrow> ('sv, 'mx, 'c, 't) queue_sys \<Rightarrow> ('sv, 'mx, 'c, 't) queue_sys \<Rightarrow> bool"
  for mh :: "'mx \<Rightarrow> string \<Rightarrow> ('c, 't) task_handler \<Rightarrow> 'mx outcome"
    and st :: "'sv \<Rightarrow> 'mx \<Rightarrow> gerror option \<times> 'sv" and sd :: "'sv \<Rightarrow> 'sv" where
  register: "HandleFunc mh p h (qs s) = Returns q \<Longrightarrow>
    queue_step mh st sd s (s\<lparr>qs := q, registered := (p, h) # registered s\<rparr>)"
| register_refused: "HandleFunc mh p h (qs s) = Panics v \<Longrightarrow> queue_step mh st sd s s"
| start_mark: "queue_step mh st sd s (s\<lparr>qs := mark_started (qs s), starting := starting s + 1\<rparr>)"
| start_serve: "0 < starting s \<Longrightarrow>
    queue_step mh st sd s (s\<lparr>qs := snd (serve st (qs s)), starting := starting s - 1,
      handed := mux (qs s) # handed s\<rparr>)"
| shutdown: "queue_step mh st sd s (s\<lparr>qs := Queue_Stop sd (qs s)\<rparr>)"

definition queue_init :: "('sv, 'mx) QueueServer \<Rightarrow> ('sv, 'mx, 'c, 't) queue_sys \<Rightarrow> bool" where
  "queue_init q s \<longleftrightarrow> qs s = q \<and> starting s = 0 \<and> registered s = [] \<and> handed s = []"

end
