(* ===== verification/QueueSpec.thy ===== *)
theory QueueSpec
  imports Queue
begin

text \<open>
  Properties of the task queue: the recovery boundary around every handler, and the freezing of the
  mux once the server has started, under any interleaving of registrations, starts and stops.
\<close>

interpretation queue_recovery: recovery "\<lambda>h. h ctx t" recovering_handler "\<lambda>v. Some (PanicError v)" for ctx t
  by unfold_locales (simp_all add: recovering_handler_def)

text \<open>The law of a mux: it finds the handler last registered under a pattern.\<close>

definition mux_law ::
    "('mx \<Rightarrow> string \<Rightarrow> ('c, 't) task_handler \<Rightarrow> 'mx outcome) \<Rightarrow> ('mx \<Rightarrow> string \<Rightarrow> ('c, 't) task_handler option) \<Rightarrow> bool" where
  "mux_law mh lookup \<longleftrightarrow> (\<forall>m p h m'. mh m p h = Returns m' \<longrightarrow> lookup m' = (lookup m)(p \<mapsto> h))"

text \<open>
  The invariant: the mux holds exactly the handlers registered, behind the boundary; a start that has
  begun has marked the server; and the muxes asynq was handed are the present one.
\<close>

definition queue_inv ::
    "('mx \<Rightarrow> string \<Rightarrow> ('c, 't) task_handler option) \<Rightarrow> ('sv, 'mx, 'c, 't) queue_sys \<Rightarrow> bool" where
  "queue_inv lookup s \<longleftrightarrow>
     lookup (mux (qs s)) = map_option recovering_handler \<circ> map_of (registered s)
     \<and> (0 < starting s \<or> handed s \<noteq> [] \<longrightarrow> started (qs s))
     \<and> list_all (\<lambda>m. m = mux (qs s)) (handed s)"

lemma HandleFunc_Returns:
  assumes "HandleFunc mh p h q = Returns q'"
  obtains m where "\<not> started q" "mh (mux q) p (recovering_handler h) = Returns m" "q' = q\<lparr>mux := m\<rparr>"
  using assms
  by (cases "mh (mux q) p (recovering_handler h)") (auto simp: HandleFunc_def split: if_splits)

lemma queue_step_inv:
  assumes "mux_law mh lookup" "queue_step mh st sd s t" "queue_inv lookup s"
  shows "queue_inv lookup t"
  using assms(2)
proof cases
  case (register p h q)
  from register(2) obtain m where m: "\<not> started (qs s)" "mh (mux (qs s)) p (recovering_handler h) = Returns m"
    "q = qs s\<lparr>mux := m\<rparr>"
    by (rule HandleFunc_Returns)
  have "lookup m = (lookup (mux (qs s)))(p \<mapsto> recovering_handler h)" using assms(1) m(2) by (simp add: mux_law_def)
  with m assms(3) show ?thesis by (auto simp: register(1) queue_inv_def fun_eq_iff)
next
  case start_serve
  with assms(3) show ?thesis by (auto simp: queue_inv_def serve_def split: prod.split)
qed (use assms(3) in \<open>auto simp: queue_inv_def mark_started_def Queue_Stop_def Queue_Shutdown_def\<close>)

interpretation queue: inductive_invariant "queue_init q" "queue_step mh st sd"
  "\<lambda>s. mux_law mh lookup \<longrightarrow> lookup (mux q) = Map.empty \<longrightarrow> \<not> started q \<longrightarrow> queue_inv lookup s"
  for q mh st sd lookup
proof unfold_locales
  fix s show "queue_init q s \<Longrightarrow> mux_law mh lookup \<longrightarrow> lookup (mux q) = Map.empty \<longrightarrow> \<not> started q \<longrightarrow> queue_inv lookup s"
    by (auto simp: queue_init_def queue_inv_def)
qed (blast intro: queue_step_inv)

lemma queue_reachable_inv:
  assumes "mux_law mh lookup" "lookup m0 = Map.empty"
    and "reachable (queue_init (NewQueueServer ns m0 opt cfg)) (queue_step mh st sd) s"
  shows "queue_inv lookup s"
  using queue.reachable_inv [OF assms(3), of lookup] assms(1,2) by (simp add: NewQueueServer_def)

section \<open>Properties\<close>

text \<open>
  C22: once asynq has the mux, nothing changes it. Whatever goroutines register handlers, start and stop
  the server, in any order, every mux handed to asynq is the final one: it is the server's present mux,
  no further registration succeeds, and each attempt at one panics and leaves the server usable.
\<close>

theorem queue_mux_frozen:
  assumes "mux_law mh lookup" "lookup m0 = Map.empty"
    and "reachable (queue_init (NewQueueServer ns m0 opt cfg)) (queue_step mh st sd) s" "m \<in> set (handed s)"
  shows "m = mux (qs s) \<and> HandleFunc mh p h (qs s) = Panics register_panic
    \<and> (\<forall>t. queue_step mh st sd s t \<longrightarrow> mux (qs t) = m \<and> registered t = registered s)"
proof -
  have inv: "queue_inv lookup s" by (rule queue_reachable_inv [OF assms(1-3)])
  with assms(4) have m: "m = mux (qs s)" and st: "started (qs s)"
    by (auto simp: queue_inv_def list_all_iff)
  have "mux (qs t) = m \<and> registered t = registered s" if "queue_step mh st sd s t" for t
    using that m st
    by cases (auto simp: HandleFunc_def mark_started_def serve_def Queue_Stop_def Queue_Shutdown_def
        split: prod.split)
  with m st show ?thesis by (simp add: HandleFunc_def)
qed

text \<open>A mux that keeps its handlers in an association list and refuses the empty pattern.\<close>

definition list_mux ::
    "(string \<times> ('c, 't) task_handler) list \<Rightarrow> string \<Rightarrow> ('c, 't) task_handler
     \<Rightarrow> (string \<times> ('c, 't) task_handler) list outcome" where
  "list_mux m p h = (if p = [] then Panics (PMsg ''empty pattern'') else Returns ((p, h) # m))"

definition mail_handler :: "(nat, nat) task_handler" where
  "mail_handler c t = Panics (PUser t)"

definition toy_start :: "nat \<Rightarrow> (string \<times> (nat, nat) task_handler) list \<Rightarrow> gerror option \<times> nat" where
  "toy_start sv m = (None, sv + 1)"

definition mail_server :: "(nat, (string \<times> (nat, nat) task_handler) list) QueueServer" where
  "mail_server = NewQueueServer (\<lambda>(opt::nat) (cfg::nat). 0) [] 0 0"

definition mail_started :: "(nat, (string \<times> (nat, nat) task_handler) list, nat, nat) queue_sys" where
  "mail_started = \<lparr>qs = \<lparr>server = 1, mux = [(''mail'', recovering_handler mail_handler)], started = True\<rparr>,
     starting = 0, registered = [(''mail'', mail_handler)],
     handed = [[(''mail'', recovering_handler mail_handler)]]\<rparr>"

lemma list_mux_law: "mux_law list_mux map_of"
  by (auto simp: mux_law_def list_mux_def split: if_splits)

lemma mail_started_reachable:
  "reachable (queue_init (NewQueueServer (\<lambda>(opt::nat) (cfg::nat). 0) [] 0 0)) (queue_step list_mux toy_start Suc) mail_started"
proof -
  let ?R = "queue_step list_mux toy_start Suc"
  let ?s0 = "\<lparr>qs = mail_server, starting = 0, registered = [], handed = []\<rparr>"
  let ?m = "[(''mail'', recovering_handler mail_handler)]"
  let ?s1 = "\<lparr>qs = mail_server\<lparr>mux := ?m\<rparr>, starting = 0, registered = [(''mail'', mail_handler)], handed = []\<rparr>"
  let ?s2 = "?s1\<lparr>qs := mark_started (qs ?s1), starting := 1\<rparr>"
  have "reachable (queue_init mail_server) ?R ?s0" by (rule reachable_init) (simp add: queue_init_def)
  moreover have "?R ?s0 ?s1"
    using queue_step.register [of list_mux "''mail''" mail_handler ?s0 "mail_server\<lparr>mux := ?m\<rparr>" toy_start Suc]
    by (simp add: HandleFunc_def list_mux_def mail_server_def NewQueueServer_def)
  moreover have "?R ?s1 ?s2" using queue_step.start_mark [of list_mux toy_start Suc ?s1] by simp
  moreover have "?R ?s2 mail_started"
    using queue_step.start_serve [of ?s2 list_mux toy_start Suc]
    by (simp add: mail_started_def serve_def mark_started_def toy_start_def mail_server_def NewQueueServer_def)
  ultimately show ?thesis unfolding mail_server_def by (meson reachable_step)
qed

theorem queue_mux_frozen_witness:
  "HandleFunc list_mux ''sms'' mail_handler (qs mail_started) = Panics register_panic"
proof -
  have "[(''mail'', recovering_handler mail_handler)] \<in> set (handed mail_started)" by (simp add: mail_started_def)
  from queue_mux_frozen [OF list_mux_law _ mail_started_reachable this] show ?thesis by simp
qed

text \<open>
  No task can take the queue server down. In any state a server can reach, the handler found in its
  mux, under any pattern, is the last one registered there behind a recovery boundary: it returns that
  handler's error, or its panic as a \<open>PanicError\<close>, and never panics.
\<close>

theorem queue_handlers_contain_panics:
  assumes "mux_law mh lookup" "lookup m0 = Map.empty"
    and "reachable (queue_init (NewQueueServer ns m0 opt cfg)) (queue_step mh st sd) s"
    and "lookup (mux (qs s)) p = Some f"
  shows "\<exists>h. map_of (registered s) p = Some h \<and> (\<forall>ctx t. f ctx t =
    Returns (case h ctx t of Returns err \<Rightarrow> err | Panics v \<Rightarrow> Some (PanicError v)))"
proof -
  from queue_reachable_inv [OF assms(1-3)] assms(4) obtain h
    where h: "map_of (registered s) p = Some h" "f = recovering_handler h"
    by (auto simp: queue_inv_def)
  then show ?thesis by (simp only: queue_recovery.wrapped_value option.inject ex_simps simp_thms)
qed

theorem queue_handlers_contain_panics_witness:
  "recovering_handler mail_handler 0 7 = Returns (Some (PanicError (PUser 7)))"
proof -
  have "map_of (mux (qs mail_started)) ''mail'' = Some (recovering_handler mail_handler)"
    by (simp add: mail_started_def)
  from queue_handlers_contain_panics [OF list_mux_law _ mail_started_reachable this] show ?thesis
    by (auto simp: mail_started_def mail_handler_def)
qed

text \<open>The misuse of a nil client is an error, never a crash.\<close>

lemma nil_client_is_an_error:
  "c = None \<or> c = Some None \<Longrightarrow> Queue_Enqueue enq c task = Inl ErrClientNotInitialized
     \<and> Queue_EnqueueContext enqc c ctx task = Inl ErrClientNotInitialized
     \<and> Queue_Close cl c = Some ErrClientNotInitialized"
  by (auto simp: Queue_Enqueue_def Queue_EnqueueContext_def Queue_Close_def)

end
