(* ===== verification/Grpc.thy ===== *)
theory Grpc
  imports Async
begin

text \<open>
  \<open>grpckit/interceptors.go\<close>, \<open>server.go\<close> and \<open>client.go\<close>. A handler is a function of its context,
  its request and the world (the clock, the records logged so far and whatever else it touches); it
  returns or panics and leaves a world. The functions of grpc are parameters:
  \<open>FromContextError\<close> (\<open>status.FromContextError(e).Err()\<close>), \<open>status_Code\<close> (\<open>status.Code\<close>) and, where
  a property speaks of a whole server, the function that chains interceptors. Attribute values of a
  log record are the values printed.
\<close>

section \<open>Log records\<close>

datatype log_level = LInfo | LWarn | LError

datatype log_attr =
  GrpcMethod string | GrpcDuration int | GrpcCode nat | GrpcError gerror | PanicValue pvalue | Stack

record log_rec =
  level :: log_level
  msg :: string
  attrs :: "log_attr list"

type_synonym logger = "nat option"           \<comment> \<open>a \<open>*slog.Logger\<close>, possibly nil\<close>

record 'u world =
  wall :: int
  logged :: "(nat \<times> log_rec) list"
  user :: 'u

text \<open>A call on a nil logger dereferences it.\<close>

definition log_to :: "logger \<Rightarrow> log_rec \<Rightarrow> 'u world \<Rightarrow> unit outcome \<times> 'u world" where
  "log_to lg r w =
     (case lg of None \<Rightarrow> (Panics PNilDeref, w) | Some l \<Rightarrow> (Returns (), w\<lparr>logged := logged w @ [(l, r)]\<rparr>))"

definition internal_error :: gerror where
  "internal_error = StatusError 13 ''internal server error''"

section \<open>Unary interceptors\<close>

type_synonym ('u, 'q, 'r) unary_handler =
  "context_t \<Rightarrow> 'q \<Rightarrow> 'u world \<Rightarrow> ('r option \<times> gerror option) outcome \<times> 'u world"

type_synonym ('u, 'q, 'r) unary_interceptor =
  "string \<Rightarrow> ('u, 'q, 'r) unary_handler \<Rightarrow> ('u, 'q, 'r) unary_handler"

definition RecoveryUnaryInterceptor ::
    "(gerror \<Rightarrow> gerror option) \<Rightarrow> logger \<Rightarrow> ('u, 'q, 'r) unary_interceptor" where
  "RecoveryUnaryInterceptor FromContextError lg FullMethod handler ctx req w =
     (case ctx_err ctx (wall w) of
        Some err \<Rightarrow> (Returns (None, FromContextError err), w)
      | None \<Rightarrow>
          (case handler ctx req w of
             (Returns res, w') \<Rightarrow> (Returns res, w')
           | (Panics r, w') \<Rightarrow>
               (case log_to lg \<lparr>level = LError, msg = ''grpc: unary handler panic recovered'',
                       attrs = [GrpcMethod FullMethod, PanicValue r, Stack]\<rparr> w' of
                  (Returns u, w'') \<Rightarrow> (Returns (None, Some internal_error), w'')
                | (Panics v, w'') \<Rightarrow> (Panics v, w''))))"

definition LoggingUnaryInterceptor ::
    "(gerror option \<Rightarrow> nat) \<Rightarrow> logger \<Rightarrow> ('u, 'q, 'r) unary_interceptor" where
  "LoggingUnaryInterceptor status_Code lg FullMethod handler ctx req w =
     (let start = wall w
      in case handler ctx req w of
           (Panics r, w') \<Rightarrow> (Panics r, w')
         | (Returns (resp, err), w') \<Rightarrow>
             (let duration = wall w' - start;
                  code = status_Code err;
                  ats = [GrpcMethod FullMethod, GrpcDuration duration, GrpcCode code];
                  rec = (case err of
                    Some e \<Rightarrow> \<lparr>level = LWarn, msg = ''grpc: unary call finished with error'',
                               attrs = ats @ [GrpcError e]\<rparr>
                  | None \<Rightarrow> \<lparr>level = LInfo, msg = ''grpc: unary call finished'', attrs = ats\<rparr>)
              in (case log_to lg rec w' of
                    (Returns u, w'') \<Rightarrow> (Returns (resp, err), w'')
                  | (Panics v, w'') \<Rightarrow> (Panics v, w''))))"

section \<open>Stream interceptors\<close>

text \<open>A server stream carries its context; \<open>stream_ctx\<close> is \<open>ss.Context()\<close>.\<close>

type_synonym ('u, 'v, 's) stream_handler = "'v \<Rightarrow> 's \<Rightarrow> 'u world \<Rightarrow> gerror option outcome \<times> 'u world"

type_synonym ('u, 'v, 's) stream_interceptor =
  "string \<Rightarrow> ('u, 'v, 's) stream_handler \<Rightarrow> ('u, 'v, 's) stream_handler"

definition RecoveryStreamInterceptor ::
    "(gerror \<Rightarrow> gerror option) \<Rightarrow> ('s \<Rightarrow> context_t) \<Rightarrow> logger \<Rightarrow> ('u, 'v, 's) stream_interceptor" where
  "RecoveryStreamInterceptor FromContextError stream_ctx lg FullMethod handler srv ss w =
     (case ctx_err (stream_ctx ss) (wall w) of
        Some err \<Rightarrow> (Returns (FromContextError err), w)
      | None \<Rightarrow>
          (case handler srv ss w of
             (Returns err, w') \<Rightarrow> (Returns err, w')
           | (Panics r, w') \<Rightarrow>
               (case log_to lg \<lparr>level = LError, msg = ''grpc: stream handler panic recovered'',
                       attrs = [GrpcMethod FullMethod, PanicValue r, Stack]\<rparr> w' of
                  (Returns u, w'') \<Rightarrow> (Returns (Some internal_error), w'')
                | (Panics v, w'') \<Rightarrow> (Panics v, w''))))"

definition LoggingStreamInterceptor ::
    "(gerror option \<Rightarrow> nat) \<Rightarrow> logger \<Rightarrow> ('u, 'v, 's) stream_interceptor" where
  "LoggingStreamInterceptor status_Code lg FullMethod handler srv ss w =
     (let start = wall w
      in case handler srv ss w of
           (Panics r, w') \<Rightarrow> (Panics r, w')
         | (Returns err, w') \<Rightarrow>
             (let duration = wall w' - start;
                  code = status_Code err;
                  ats = [GrpcMethod FullMethod, GrpcDuration duration, GrpcCode code];
                  rec = (case err of
                    Some e \<Rightarrow> \<lparr>level = LWarn, msg = ''grpc: stream call finished with error'',
                               attrs = ats @ [GrpcError e]\<rparr>
                  | None \<Rightarrow> \<lparr>level = LInfo, msg = ''grpc: stream call finished'', attrs = ats\<rparr>)
              in (case log_to lg rec w' of
                    (Returns u, w'') \<Rightarrow> (Returns err, w'')
                  | (Panics v, w'') \<Rightarrow> (Panics v, w''))))"

section \<open>Server configuration\<close>

text \<open>
  TLS configurations and loggers are pointers, so they may be nil; an interceptor is a function value,
  which may be nil too.
\<close>

record ('tls, 'ui, 'si) serverConfig =
  addr :: string
  tlsConfig :: "'tls option"
  config_logger :: logger
  unaryInterceptors :: "'ui option list"
  streamInterceptors :: "'si option list"
  dialTimeout :: int

definition defaultServerConfig :: "logger \<Rightarrow> ('tls, 'ui, 'si) serverConfig" where
  "defaultServerConfig slog_Default =
     \<lparr>addr = '':50051'', tlsConfig = None, config_logger = slog_Default, unaryInterceptors = [],
      streamInterceptors = [], dialTimeout = 10 * 1000000000\<rparr>"

definition WithServerAddress :: "string \<Rightarrow> ('tls, 'ui, 'si) serverConfig \<Rightarrow> ('tls, 'ui, 'si) serverConfig" where
  "WithServerAddress a c = c\<lparr>addr := a\<rparr>"

definition WithServerTLS :: "'tls option \<Rightarrow> ('tls, 'ui, 'si) serverConfig \<Rightarrow> ('tls, 'ui, 'si) serverConfig" where
  "WithServerTLS cfg c = (if cfg \<noteq> None then c\<lparr>tlsConfig := cfg\<rparr> else c)"

definition WithServerLogger :: "logger \<Rightarrow> ('tls, 'ui, 'si) serverConfig \<Rightarrow> ('tls, 'ui, 'si) serverConfig" where
  "WithServerLogger lg c = (if lg \<noteq> None then c\<lparr>config_logger := lg\<rparr> else c)"

text \<open>The loop that appends the non-nil elements of a variadic argument to a slice.\<close>

fun append_non_nil :: "'x option list \<Rightarrow> 'x option list \<Rightarrow> 'x option list" where
  "append_non_nil slice [] = slice"
| "append_non_nil slice (i # is) = append_non_nil (if i \<noteq> None then slice @ [i] else slice) is"

definition WithUnaryInterceptors ::
    "'ui option list \<Rightarrow> ('tls, 'ui, 'si) serverConfig \<Rightarrow> ('tls, 'ui, 'si) serverConfig" where
  "WithUnaryInterceptors is c = c\<lparr>unaryInterceptors := append_non_nil (unaryInterceptors c) is\<rparr>"

definition WithStreamInterceptors ::
    "'si option list \<Rightarrow> ('tls, 'ui, 'si) serverConfig \<Rightarrow> ('tls, 'ui, 'si) serverConfig" where
  "WithStreamInterceptors is c = c\<lparr>streamInterceptors := append_non_nil (streamInterceptors c) is\<rparr>"

definition parseServerOptions ::
    "logger \<Rightarrow> (('tls, 'ui, 'si) serverConfig \<Rightarrow> ('tls, 'ui, 'si) serverConfig) option list
     \<Rightarrow> ('tls, 'ui, 'si) serverConfig" where
  "parseServerOptions slog_Default opts = apply_options opts (defaultServerConfig slog_Default)"

text \<open>The options \<open>NewServer\<close> hands to \<open>grpc.NewServer\<close>.\<close>

datatype 'tls creds = CredsTLS 'tls | CredsInsecure

datatype ('tls, 'ui, 'si) grpc_server_option =
    StatsHandler
  | ChainUnaryInterceptor "'ui option list"
  | ChainStreamInterceptor "'si option list"
  | Creds "'tls creds"

definition unary_chain_of ::
    "(gerror \<Rightarrow> gerror option) \<Rightarrow> (gerror option \<Rightarrow> nat)
     \<Rightarrow> ('tls, ('u, 'q, 'r) unary_interceptor, 'si) serverConfig \<Rightarrow> ('u, 'q, 'r) unary_interceptor option list" where
  "unary_chain_of FromContextError status_Code cfg =
     [Some (RecoveryUnaryInterceptor FromContextError (config_logger cfg)),
      Some (LoggingUnaryInterceptor status_Code (config_logger cfg))] @ unaryInterceptors cfg"

definition stream_chain_of ::
    "(gerror \<Rightarrow> gerror option) \<Rightarrow> (gerror option \<Rightarrow> nat) \<Rightarrow> ('s \<Rightarrow> context_t)
     \<Rightarrow> ('tls, 'ui, ('u, 'v, 's) stream_interceptor) serverConfig \<Rightarrow> ('u, 'v, 's) stream_interceptor option list" where
  "stream_chain_of FromContextError status_Code stream_ctx cfg =
     [Some (RecoveryStreamInterceptor FromContextError stream_ctx (config_logger cfg)),
      Some (LoggingStreamInterceptor status_Code (config_logger cfg))] @ streamInterceptors cfg"

definition Grpc_NewServer ::
    "(gerror \<Rightarrow> gerror option) \<Rightarrow> (gerror option \<Rightarrow> nat) \<Rightarrow> ('s \<Rightarrow> context_t) \<Rightarrow> logger
     \<Rightarrow> (('tls, ('u, 'q, 'r) unary_interceptor, ('u, 'v, 's) stream_interceptor) serverConfig
          \<Rightarrow> ('tls, ('u, 'q, 'r) unary_interceptor, ('u, 'v, 's) stream_interceptor) serverConfig) option list
     \<Rightarrow> ('tls, ('u, 'q, 'r) unary_interceptor, ('u, 'v, 's) stream_interceptor) grpc_server_option list" where
  "Grpc_NewServer FromContextError status_Code stream_ctx slog_Default opts =
     (let cfg = parseServerOptions slog_Default opts;
          grpcOpts = [StatsHandler,
            ChainUnaryInterceptor (unary_chain_of FromContextError status_Code cfg),
            ChainStreamInterceptor (stream_chain_of FromContextError status_Code stream_ctx cfg)]
      in grpcOpts @ [Creds (case tlsConfig cfg of Some t \<Rightarrow> CredsTLS t | None \<Rightarrow> CredsInsecure)])"

section \<open>Client configuration\<close>

record ('tls, 'cu, 'cs, 'do) clientConfig =
  client_tls :: "'tls option"
  client_dialTimeout :: int
  client_unary :: "'cu option list"
  client_stream :: "'cs option list"
  rawDialOpts :: "'do option list"

definition defaultClientConfig :: "('tls, 'cu, 'cs, 'do) clientConfig" where
  "defaultClientConfig = \<lparr>client_tls = None, client_dialTimeout = 10 * 1000000000, client_unary = [],
     client_stream = [], rawDialOpts = []\<rparr>"

definition WithInsecure :: "('tls, 'cu, 'cs, 'do) clientConfig \<Rightarrow> ('tls, 'cu, 'cs, 'do) clientConfig" where
  "WithInsecure c = c\<lparr>client_tls := None\<rparr>"

definition WithClientTLS ::
    "'tls option \<Rightarrow> ('tls, 'cu, 'cs, 'do) clientConfig \<Rightarrow> ('tls, 'cu, 'cs, 'do) clientConfig" where
  "WithClientTLS cfg c = (if cfg \<noteq> None then c\<lparr>client_tls := cfg\<rparr> else c)"

definition WithDialTimeout ::
    "int \<Rightarrow> ('tls, 'cu, 'cs, 'do) clientConfig \<Rightarrow> ('tls, 'cu, 'cs, 'do) clientConfig" where
  "WithDialTimeout d c = (if d > 0 then c\<lparr>client_dialTimeout := d\<rparr> else c)"

definition WithClientUnaryInterceptors ::
    "'cu option list \<Rightarrow> ('tls, 'cu, 'cs, 'do) clientConfig \<Rightarrow> ('tls, 'cu, 'cs, 'do) clientConfig" where
  "WithClientUnaryInterceptors is c = c\<lparr>client_unary := append_non_nil (client_unary c) is\<rparr>"

definition WithClientStreamInterceptors ::
    "'cs option list \<Rightarrow> ('tls, 'cu, 'cs, 'do) clientConfig \<Rightarrow> ('tls, 'cu, 'cs, 'do) clientConfig" where
  "WithClientStreamInterceptors is c = c\<lparr>client_stream := append_non_nil (client_stream c) is\<rparr>"

definition WithRawDialOptions ::
    "'do option list \<Rightarrow> ('tls, 'cu, 'cs, 'do) clientConfig \<Rightarrow> ('tls, 'cu, 'cs, 'do) clientConfig" where
  "WithRawDialOptions opts c = c\<lparr>rawDialOpts := append_non_nil (rawDialOpts c) opts\<rparr>"

definition parseClientOptions ::
    "(('tls, 'cu, 'cs, 'do) clientConfig \<Rightarrow> ('tls, 'cu, 'cs, 'do) clientConfig) option list
     \<Rightarrow> ('tls, 'cu, 'cs, 'do) clientConfig" where
  "parseClientOptions opts = apply_options opts defaultClientConfig"

text \<open>The dial options handed to \<open>grpc.NewClient\<close>; the dialer's timeout is 0 if none is set.\<close>

datatype ('tls, 'cu, 'cs, 'do) dial_option =
    WithStatsHandler
  | WithTransportCredentials "'tls creds"
  | WithChainUnaryInterceptor "'cu option list"
  | WithChainStreamInterceptor "'cs option list"
  | WithContextDialer int
  | RawDialOption "'do option"

definition dial_options ::
    "('tls, 'cu, 'cs, 'do) clientConfig \<Rightarrow> ('tls, 'cu, 'cs, 'do) dial_option list" where
  "dial_options cfg =
     [WithStatsHandler]
     @ [WithTransportCredentials (case client_tls cfg of Some t \<Rightarrow> CredsTLS t | None \<Rightarrow> CredsInsecure)]
     @ (if length (client_unary cfg) > 0 then [WithChainUnaryInterceptor (client_unary cfg)] else [])
     @ (if length (client_stream cfg) > 0 then [WithChainStreamInterceptor (client_stream cfg)] else [])
     @ [WithContextDialer (if client_dialTimeout cfg > 0 then client_dialTimeout cfg else 0)]
     @ map RawDialOption (rawDialOpts cfg)"

definition Grpc_NewClient ::
    "(string \<Rightarrow> ('tls, 'cu, 'cs, 'do) dial_option list \<Rightarrow> gerror + 'conn) \<Rightarrow> string
     \<Rightarrow> (('tls, 'cu, 'cs, 'do) clientConfig \<Rightarrow> ('tls, 'cu, 'cs, 'do) clientConfig) option list
     \<Rightarrow> gerror + 'conn" where
  "Grpc_NewClient grpc_NewClient target opts =
     (case grpc_NewClient target (dial_options (parseClientOptions opts)) of
        Inl err \<Rightarrow> Inl err
      | Inr conn \<Rightarrow> Inr conn)"

end
