(* ===== verification/GrpcSpec.thy ===== *)
theory GrpcSpec
  imports Grpc
begin

text \<open>
  Properties of the gRPC kit. The unary and the streaming chain are two instances of one contract: a
  panic boundary around a call logger. The contract's locale derives what a call through both does;
  the options' locale gives the configuration every server and client is built from.
\<close>

section \<open>The contract of the interceptor stack\<close>

text \<open>Logging is transparent for what a call returns, and records it once; a panic passes through.\<close>

locale call_logger =
  fixes call :: "'h \<Rightarrow> 'u world \<Rightarrow> 'o outcome \<times> 'u world"
    and logging :: "'h \<Rightarrow> 'h" and lgr :: nat and finish_rec :: "'o \<Rightarrow> int \<Rightarrow> log_rec"
  assumes log_return: "call h w = (Returns y, w') \<Longrightarrow>
      call (logging h) w = (Returns y, w'\<lparr>logged := logged w' @ [(lgr, finish_rec y (wall w' - wall w))]\<rparr>)"
    and log_panic: "call h w = (Panics v, w') \<Longrightarrow> call (logging h) w = (Panics v, w')"
begin

lemma log_transparent: "fst (call (logging h) w) = fst (call h w)"
  by (cases "call h w"; cases "fst (call h w)") (auto dest: log_return log_panic)

end

text \<open>The boundary: early exit for a dead context, else a panic becomes a value and a record.\<close>

locale panic_boundary =
  fixes call :: "'h \<Rightarrow> 'u world \<Rightarrow> 'o outcome \<times> 'u world"
    and recovering :: "'h \<Rightarrow> 'h" and lgr :: nat and panic_rec :: "pvalue \<Rightarrow> log_rec"
    and early :: "'u world \<Rightarrow> 'o option" and failed :: 'o
  assumes dead: "early w = Some y \<Longrightarrow> call (recovering h) w = (Returns y, w)"
    and live_return: "early w = None \<Longrightarrow> call h w = (Returns y, w') \<Longrightarrow> call (recovering h) w = (Returns y, w')"
    and live_panic: "early w = None \<Longrightarrow> call h w = (Panics v, w') \<Longrightarrow>
      call (recovering h) w = (Returns failed, w'\<lparr>logged := logged w' @ [(lgr, panic_rec v)]\<rparr>)"
begin

text \<open>What the caller of a recovering handler sees, in a given world.\<close>

definition seen :: "'u world \<Rightarrow> 'h \<Rightarrow> 'o outcome" where
  "seen w h = (case early w of Some y \<Rightarrow> Returns y | None \<Rightarrow> fst (call h w))"

end

sublocale panic_boundary \<subseteq> boundary: recovery "seen w" recovering "\<lambda>_. failed" for w
proof
  fix h y v
  show "seen w h = Returns y \<Longrightarrow> seen w (recovering h) = Returns y"
    by (cases "call h w") (auto simp: seen_def dead live_return split: option.splits)
  show "seen w h = Panics v \<Longrightarrow> seen w (recovering h) = Returns failed"
    by (cases "call h w") (auto simp: seen_def dead live_panic split: option.splits)
qed

locale interceptor_stack =
  call_logger call logging lgr finish_rec + panic_boundary call recovering lgr panic_rec early failed
  for call :: "'h \<Rightarrow> 'u world \<Rightarrow> 'o outcome \<times> 'u world" and logging recovering :: "'h \<Rightarrow> 'h"
    and lgr finish_rec panic_rec early failed
begin

lemma stack_call:
  "call (recovering (logging h)) w =
     (case early w of
        Some y \<Rightarrow> (Returns y, w)
      | None \<Rightarrow> (case call h w of
          (Returns y, w') \<Rightarrow> (Returns y, w'\<lparr>logged := logged w' @ [(lgr, finish_rec y (wall w' - wall w))]\<rparr>)
        | (Panics v, w') \<Rightarrow> (Returns failed, w'\<lparr>logged := logged w' @ [(lgr, panic_rec v)]\<rparr>)))"
proof (cases "early w")
  case None
  obtain out w' where call: "call h w = (out, w')" by (cases "call h w")
  show ?thesis
  proof (cases out)
    case (Returns y)
    with live_return [OF None log_return [OF call [unfolded Returns]]] None call show ?thesis by simp
  next
    case (Panics v)
    with live_panic [OF None log_panic [OF call [unfolded Panics]]] None call show ?thesis by simp
  qed
qed (simp add: dead)

end

section \<open>The two chains provide it\<close>

definition early_unary :: "(gerror \<Rightarrow> gerror option) \<Rightarrow> context_t \<Rightarrow> 'u world \<Rightarrow> ('r option \<times> gerror option) option" where
  "early_unary fce ctx w = map_option (\<lambda>e. (None, fce e)) (ctx_err ctx (wall w))"

definition early_stream :: "(gerror \<Rightarrow> gerror option) \<Rightarrow> context_t \<Rightarrow> 'u world \<Rightarrow> gerror option option" where
  "early_stream fce ctx w = map_option fce (ctx_err ctx (wall w))"

definition panic_record :: "string \<Rightarrow> string \<Rightarrow> pvalue \<Rightarrow> log_rec" where
  "panic_record kind m v = \<lparr>level = LError, msg = ''grpc: '' @ kind @ '' handler panic recovered'',
     attrs = [GrpcMethod m, PanicValue v, Stack]\<rparr>"

definition finish_record :: "string \<Rightarrow> (gerror option \<Rightarrow> nat) \<Rightarrow> string \<Rightarrow> gerror option \<Rightarrow> int \<Rightarrow> log_rec" where
  "finish_record kind code m err d =
     \<lparr>level = (if err = None then LInfo else LWarn),
      msg = ''grpc: '' @ kind @ '' call finished'' @ (if err = None then [] else '' with error''),
      attrs = [GrpcMethod m, GrpcDuration d, GrpcCode (code err)]
        @ (case err of None \<Rightarrow> [] | Some e \<Rightarrow> [GrpcError e])\<rparr>"

interpretation unary: interceptor_stack "\<lambda>h. h ctx req" "LoggingUnaryInterceptor code (Some l) m"
  "RecoveryUnaryInterceptor fce (Some l) m" l "\<lambda>y. finish_record ''unary'' code m (snd y)"
  "panic_record ''unary'' m" "early_unary fce ctx" "(None, Some internal_error)"
  for ctx and req :: 'q and code l m fce
  by unfold_locales
     (auto simp: LoggingUnaryInterceptor_def RecoveryUnaryInterceptor_def log_to_def Let_def
        finish_record_def panic_record_def early_unary_def split: option.split)

interpretation streaming: interceptor_stack "\<lambda>h. h srv ss" "LoggingStreamInterceptor code (Some l) m"
  "RecoveryStreamInterceptor fce sctx (Some l) m" l "finish_record ''stream'' code m"
  "panic_record ''stream'' m" "early_stream fce (sctx ss)" "Some internal_error"
  for srv :: 'v and ss :: 's and code l m fce sctx
  by unfold_locales
     (auto simp: LoggingStreamInterceptor_def RecoveryStreamInterceptor_def log_to_def Let_def
        finish_record_def panic_record_def early_stream_def split: option.split)

section \<open>Options\<close>

lemma append_non_nil_filter: "append_non_nil xs is = xs @ filter (\<lambda>i. i \<noteq> None) is"
  by (induction xs "is" rule: append_non_nil.induct) auto

inductive server_option ::
    "(('tls, 'ui, 'si) serverConfig \<Rightarrow> ('tls, 'ui, 'si) serverConfig) \<Rightarrow> bool" where
  "server_option (WithServerAddress a)"
| "server_option (WithServerTLS t)"
| "server_option (WithServerLogger lg)"
| "server_option (WithUnaryInterceptors uis)"
| "server_option (WithStreamInterceptors sis)"

definition valid_server :: "('tls, 'ui, 'si) serverConfig \<Rightarrow> bool" where
  "valid_server c \<longleftrightarrow> config_logger c \<noteq> None \<and> 0 < dialTimeout c
     \<and> None \<notin> set (unaryInterceptors c) \<and> None \<notin> set (streamInterceptors c)"

inductive client_option ::
    "(('tls, 'cu, 'cs, 'do) clientConfig \<Rightarrow> ('tls, 'cu, 'cs, 'do) clientConfig) \<Rightarrow> bool" where
  "client_option WithInsecure"
| "client_option (WithClientTLS t)"
| "client_option (WithDialTimeout d)"
| "client_option (WithClientUnaryInterceptors uis)"
| "client_option (WithClientStreamInterceptors sis)"
| "client_option (WithRawDialOptions os)"

definition valid_client :: "('tls, 'cu, 'cs, 'do) clientConfig \<Rightarrow> bool" where
  "valid_client c \<longleftrightarrow> 0 < client_dialTimeout c \<and> None \<notin> set (client_unary c)
     \<and> None \<notin> set (client_stream c) \<and> None \<notin> set (rawDialOpts c)"

lemmas server_option_defs = WithServerAddress_def WithServerTLS_def WithServerLogger_def
  WithUnaryInterceptors_def WithStreamInterceptors_def append_non_nil_filter

lemmas client_option_defs = WithInsecure_def WithClientTLS_def WithDialTimeout_def
  WithClientUnaryInterceptors_def WithClientStreamInterceptors_def WithRawDialOptions_def
  append_non_nil_filter

lemma server_option_valid: "server_option f \<Longrightarrow> valid_server c \<Longrightarrow> valid_server (f c)"
  by (induction rule: server_option.induct) (auto simp: valid_server_def server_option_defs)

lemma client_option_valid: "client_option f \<Longrightarrow> valid_client c \<Longrightarrow> valid_client (f c)"
  by (induction rule: client_option.induct) (auto simp: valid_client_def client_option_defs)

interpretation server_opts: option_api "defaultServerConfig (Some l)" valid_server server_option for l
  by unfold_locales (simp add: valid_server_def defaultServerConfig_def, rule server_option_valid)

interpretation client_opts: option_api defaultClientConfig valid_client client_option
  by unfold_locales (simp add: valid_client_def defaultClientConfig_def, rule client_option_valid)

lemma parsed_server_logger:
  assumes "\<And>f. Some f \<in> set opts \<Longrightarrow> server_option f"
  obtains l where "config_logger (parseServerOptions (Some d) opts) = Some l"
  using server_opts.parsed_valid [OF assms, where l = d] that
  by (auto simp: parseServerOptions_def valid_server_def)

section \<open>Properties\<close>

text \<open>
  C9: a unary call through a server built by \<open>NewServer\<close> never panics, whatever the options, the
  caller's interceptors and the handler do. Given that grpc runs a chain outermost first: a call whose
  context is done returns its status and touches nothing; otherwise the result of the interceptors and
  the handler is returned with one record of its duration and code, or, if they panic, the bare
  \<open>Internal\<close> error with one record of the panic.
\<close>

theorem unary_server_call:
  assumes "\<And>f. Some f \<in> set opts \<Longrightarrow> server_option f"
    and "\<And>i is m h. chain (Some i # is) m h = i m (chain is m h)"
  shows "\<exists>l. config_logger (parseServerOptions (Some d) opts) = Some l \<and>
    chain (unary_chain_of fce code (parseServerOptions (Some d) opts)) m h ctx req w =
    (case ctx_err ctx (wall w) of
       Some e \<Rightarrow> (Returns (None, fce e), w)
     | None \<Rightarrow>
        (case chain (unaryInterceptors (parseServerOptions (Some d) opts)) m h ctx req w of
           (Returns (resp, err), w') \<Rightarrow>
             (Returns (resp, err),
              w'\<lparr>logged := logged w' @ [(l, finish_record ''unary'' code m err (wall w' - wall w))]\<rparr>)
         | (Panics v, w') \<Rightarrow>
             (Returns (None, Some internal_error),
              w'\<lparr>logged := logged w' @ [(l, panic_record ''unary'' m v)]\<rparr>)))"
proof -
  obtain l where l: "config_logger (parseServerOptions (Some d) opts) = Some l"
    using parsed_server_logger [OF assms(1)] .
  show ?thesis
    unfolding unary_chain_of_def l append_Cons append_Nil assms(2) unary.stack_call early_unary_def
    by (auto split: option.split outcome.split prod.split)
qed

text \<open>A chain for the witnesses: the first interceptor outermost.\<close>

fun fold_chain :: "(string \<Rightarrow> 'h \<Rightarrow> 'h) option list \<Rightarrow> string \<Rightarrow> 'h \<Rightarrow> 'h" where
  "fold_chain [] m h = h"
| "fold_chain (Some i # is) m h = i m (fold_chain is m h)"
| "fold_chain (None # is) m h = fold_chain is m h"

definition nil_deref_handler :: "('u, 'q, 'r) unary_handler" where
  "nil_deref_handler ctx req w = (Panics PNilDeref, w)"

theorem unary_server_call_witness:
  "fold_chain (unary_chain_of (\<lambda>e. Some (StatusError 1 [])) (\<lambda>e. if e = None then 0 else 13)
      (parseServerOptions (Some 4) [None, Some (WithServerLogger (Some 9))])) ''/S/M''
      (nil_deref_handler :: (unit, nat, nat) unary_handler) background 5 \<lparr>wall = 0, logged = [], user = ()\<rparr>
   = (Returns (None, Some internal_error),
      \<lparr>wall = 0, logged = [(9, panic_record ''unary'' ''/S/M'' PNilDeref)], user = ()\<rparr>)"
proof -
  let ?opts = "[None, Some (WithServerLogger (Some 9))]
    :: ((unit, (unit, nat, nat) unary_interceptor, unit) serverConfig \<Rightarrow> _) option list"
  have "Some f \<in> set ?opts \<Longrightarrow> server_option f" for f by (auto intro: server_option.intros)
  from unary_server_call [of ?opts fold_chain 4 "\<lambda>e. Some (StatusError 1 [])"
      "\<lambda>e. if e = None then 0 else 13" "''/S/M''" nil_deref_handler background 5
      "\<lparr>wall = 0, logged = [], user = ()\<rparr>", OF this]
  show ?thesis
    by (simp add: parseServerOptions_def WithServerLogger_def defaultServerConfig_def nil_deref_handler_def
      unary_chain_of_def)
qed

text \<open>
  The same for a streaming call, with the stream's own context.
\<close>

theorem stream_server_call:
  assumes "\<And>f. Some f \<in> set opts \<Longrightarrow> server_option f"
    and "\<And>i is m h. chain (Some i # is) m h = i m (chain is m h)"
  shows "\<exists>l. config_logger (parseServerOptions (Some d) opts) = Some l \<and>
    chain (stream_chain_of fce code sctx (parseServerOptions (Some d) opts)) m h srv ss w =
    (case ctx_err (sctx ss) (wall w) of
       Some e \<Rightarrow> (Returns (fce e), w)
     | None \<Rightarrow>
        (case chain (streamInterceptors (parseServerOptions (Some d) opts)) m h srv ss w of
           (Returns err, w') \<Rightarrow>
             (Returns err,
              w'\<lparr>logged := logged w' @ [(l, finish_record ''stream'' code m err (wall w' - wall w))]\<rparr>)
         | (Panics v, w') \<Rightarrow>
             (Returns (Some internal_error),
              w'\<lparr>logged := logged w' @ [(l, panic_record ''stream'' m v)]\<rparr>)))"
proof -
  obtain l where l: "config_logger (parseServerOptions (Some d) opts) = Some l"
    using parsed_server_logger [OF assms(1)] .
  show ?thesis
    unfolding stream_chain_of_def l append_Cons append_Nil assms(2) streaming.stack_call early_stream_def
    by (auto split: option.split outcome.split prod.split)
qed

definition echo_stream :: "(unit, nat, context_t) stream_handler" where
  "echo_stream srv ss w = (Returns None, w\<lparr>wall := wall w + 3\<rparr>)"

theorem stream_server_call_witness:
  "fold_chain (stream_chain_of (\<lambda>e. Some (StatusError 1 [])) (\<lambda>e. if e = None then 0 else 13) id
      (parseServerOptions (Some 4) [])) ''/S/M'' echo_stream 0 background \<lparr>wall = 0, logged = [], user = ()\<rparr>
   = (Returns None,
      \<lparr>wall = 3, logged = [(4, finish_record ''stream'' (\<lambda>e. if e = None then 0 else 13) ''/S/M'' None 3)],
       user = ()\<rparr>)"
proof -
  let ?opts = "[] :: ((unit, unit, (unit, nat, context_t) stream_interceptor) serverConfig \<Rightarrow> _) option list"
  have "Some f \<in> set ?opts \<Longrightarrow> server_option f" for f by simp
  from stream_server_call [of ?opts fold_chain 4 "\<lambda>e. Some (StatusError 1 [])"
      "\<lambda>e. if e = None then 0 else 13" id "''/S/M''" echo_stream 0 background
      "\<lparr>wall = 0, logged = [], user = ()\<rparr>", OF this]
  show ?thesis
    by (simp add: parseServerOptions_def defaultServerConfig_def echo_stream_def stream_chain_of_def)
qed

text \<open>
  A call that panics leaves no call record. The logging interceptor sits inside the recovery
  interceptor, so it is unwound by the panic: the only record is the one of the panic, and it carries
  no status code, although the documentation of the chain says that the code of a recovered panic is
  logged.
\<close>

theorem panicking_call_records_no_code:
  assumes "\<And>f. Some f \<in> set opts \<Longrightarrow> server_option f"
    and "\<And>i is m h. chain (Some i # is) m h = i m (chain is m h)"
    and "ctx_err ctx (wall w) = None"
    and "chain (unaryInterceptors (parseServerOptions (Some d) opts)) m h ctx req w = (Panics v, w)"
  shows "\<exists>l rec. logged (snd (chain (unary_chain_of fce code (parseServerOptions (Some d) opts)) m h ctx req w))
      = logged w @ [(l, rec)] \<and> level rec = LError \<and> (\<forall>c. GrpcCode c \<notin> set (attrs rec))"
proof -
  obtain l where l: "config_logger (parseServerOptions (Some d) opts) = Some l"
    using parsed_server_logger [OF assms(1)] .
  show ?thesis
    unfolding unary_chain_of_def l append_Cons append_Nil assms(2) unary.stack_call early_unary_def
    by (simp add: assms(3,4) panic_record_def)
qed

theorem panicking_call_records_no_code_witness:
  "\<exists>l rec. logged (snd (fold_chain (unary_chain_of Some (\<lambda>e. 0) (parseServerOptions (Some 4) [] :: (unit, (unit, nat, nat) unary_interceptor, unit) serverConfig))
       ''/S/M'' (nil_deref_handler :: (unit, nat, nat) unary_handler) background 5
       \<lparr>wall = 0, logged = [], user = ()\<rparr>))
     = [] @ [(l, rec)] \<and> level rec = LError \<and> (\<forall>c. GrpcCode c \<notin> set (attrs rec))"
proof -
  let ?opts = "[] :: ((unit, (unit, nat, nat) unary_interceptor, unit) serverConfig \<Rightarrow> _) option list"
  let ?w = "\<lparr>wall = 0, logged = [], user = ()\<rparr>"
  have "Some f \<in> set ?opts \<Longrightarrow> server_option f" for f by simp
  from panicking_call_records_no_code [of ?opts fold_chain background ?w 4 "''/S/M''" nil_deref_handler 5
      PNilDeref Some "\<lambda>e. 0", OF this]
  show ?thesis
    by (simp add: parseServerOptions_def defaultServerConfig_def nil_deref_handler_def)
qed

text \<open>
  Every server has its safety net. Whatever options are given, nil ones and nil interceptors
  included, the chains handed to grpc start with recovery and then logging, with one non-nil logger,
  hold no nil interceptor, and transport credentials are set exactly once.
\<close>

theorem new_server_chains:
  fixes sctx :: "'s \<Rightarrow> context_t"
  assumes "\<And>f. Some f \<in> set opts \<Longrightarrow> server_option f"
  shows "\<exists>l us ss c. Grpc_NewServer fce code sctx (Some d) opts =
    [StatsHandler,
     ChainUnaryInterceptor (map Some ([RecoveryUnaryInterceptor fce (Some l), LoggingUnaryInterceptor code (Some l)] @ us)),
     ChainStreamInterceptor (map Some ([RecoveryStreamInterceptor fce sctx (Some l), LoggingStreamInterceptor code (Some l)] @ ss)),
     Creds c]"
proof -
  have valid: "valid_server (parseServerOptions (Some d) opts)"
    using server_opts.parsed_valid [OF assms] by (simp add: parseServerOptions_def)
  have all_some: "None \<notin> set xs \<Longrightarrow> \<exists>ys. xs = map Some ys" for xs :: "'z option list"
    by (rule exI [of _ "map the xs"]) (induction xs, auto)
  have all_some': "None \<notin> set xs \<Longrightarrow> \<exists>ys. xs = map Some ys" for xs :: "'y option list"
    by (rule exI [of _ "map the xs"]) (induction xs, auto)
  from valid obtain l us ss where "config_logger (parseServerOptions (Some d) opts) = Some l"
    "unaryInterceptors (parseServerOptions (Some d) opts) = map Some us"
    "streamInterceptors (parseServerOptions (Some d) opts) = map Some ss"
    using all_some all_some' unfolding valid_server_def by blast
  then show ?thesis
    by (intro exI [of _ l] exI [of _ us] exI [of _ ss])
       (simp add: Grpc_NewServer_def Let_def unary_chain_of_def stream_chain_of_def)
qed

theorem new_server_chains_witness:
  "\<exists>l us ss c. Grpc_NewServer Some (\<lambda>e. 0) id (Some 1)
      [Some (WithServerLogger None), None, Some (WithUnaryInterceptors [None])] =
    [StatsHandler,
     ChainUnaryInterceptor (map Some
       ([RecoveryUnaryInterceptor Some (Some l), LoggingUnaryInterceptor (\<lambda>e. 0) (Some l)] @ us)),
     ChainStreamInterceptor (map Some
       ([RecoveryStreamInterceptor Some id (Some l), LoggingStreamInterceptor (\<lambda>e. 0) (Some l)] @ ss)),
     Creds c]"
  by (rule new_server_chains) (auto intro: server_option.intros)

text \<open>
  Every client is bounded. Whatever options are given, the dialer has a positive timeout,
  credentials are set exactly once among the derived options, nil interceptors and nil raw options are
  gone, and the caller's raw options come last, where they override the derived ones.
\<close>

theorem client_dial_options_bounded:
  assumes "\<And>f. Some f \<in> set opts \<Longrightarrow> client_option f"
  shows "\<exists>t c us ss rs. 0 < t \<and> None \<notin> set us \<and> None \<notin> set ss \<and> None \<notin> set rs
    \<and> dial_options (parseClientOptions opts) =
        [WithStatsHandler, WithTransportCredentials c]
        @ (if us = [] then [] else [WithChainUnaryInterceptor us])
        @ (if ss = [] then [] else [WithChainStreamInterceptor ss])
        @ [WithContextDialer t] @ map RawDialOption rs"
proof -
  let ?c = "parseClientOptions opts"
  have valid: "valid_client ?c"
    using client_opts.parsed_valid [OF assms] by (simp add: parseClientOptions_def)
  show ?thesis
    by (rule exI [of _ "client_dialTimeout ?c"],
        rule exI [of _ "case client_tls ?c of Some t \<Rightarrow> CredsTLS t | None \<Rightarrow> CredsInsecure"],
        rule exI [of _ "client_unary ?c"], rule exI [of _ "client_stream ?c"], rule exI [of _ "rawDialOpts ?c"])
       (use valid in \<open>auto simp: valid_client_def dial_options_def\<close>)
qed

theorem client_dial_options_bounded_witness:
  "\<exists>t c us ss rs. 0 < t \<and> None \<notin> set us \<and> None \<notin> set ss \<and> None \<notin> set rs
    \<and> dial_options (parseClientOptions [Some (WithDialTimeout (- 5)), Some (WithRawDialOptions [None, Some (3::nat)])]) =
        [WithStatsHandler, WithTransportCredentials c]
        @ (if us = [] then [] else [WithChainUnaryInterceptor us])
        @ (if ss = [] then [] else [WithChainStreamInterceptor ss])
        @ [WithContextDialer t] @ map RawDialOption rs"
  by (rule client_dial_options_bounded) (auto intro: client_option.intros)

end
