(* ===== verification/Jsonutil.thy ===== *)
theory Jsonutil
  imports Prelude
begin

text \<open>
  \<open>jsonutil/json.go\<close>: the package's functions over the goccy encoder, whose functions are parameters. An
  encoder or decoder belongs to the writer or reader it is made for.
\<close>

definition json_Marshal :: "('v \<Rightarrow> gerror + 'b) \<Rightarrow> 'v \<Rightarrow> gerror + 'b" where
  "json_Marshal gojson_Marshal v = gojson_Marshal v"

definition json_MarshalIndent :: "('v \<Rightarrow> string \<Rightarrow> string \<Rightarrow> gerror + 'b) \<Rightarrow> 'v \<Rightarrow> string \<Rightarrow> string \<Rightarrow> gerror + 'b" where
  "json_MarshalIndent gojson_MarshalIndent v prefix indent = gojson_MarshalIndent v prefix indent"

text \<open>\<open>Unmarshal\<close> writes through the pointer it is given, also when it fails half-way.\<close>

definition json_Unmarshal :: "('b \<Rightarrow> 'v \<Rightarrow> gerror option \<times> 'v) \<Rightarrow> 'b \<Rightarrow> 'v \<Rightarrow> gerror option \<times> 'v" where
  "json_Unmarshal gojson_Unmarshal data v = gojson_Unmarshal data v"

definition json_NewEncoder :: "('w \<Rightarrow> 'enc) \<Rightarrow> 'w \<Rightarrow> 'enc" where
  "json_NewEncoder gojson_NewEncoder w = gojson_NewEncoder w"

definition json_NewDecoder :: "('r \<Rightarrow> 'dec) \<Rightarrow> 'r \<Rightarrow> 'dec" where
  "json_NewDecoder gojson_NewDecoder r = gojson_NewDecoder r"

definition json_Valid :: "('b \<Rightarrow> bool) \<Rightarrow> 'b \<Rightarrow> bool" where
  "json_Valid gojson_Valid data = gojson_Valid data"

end
