(* ===== verification/Http.thy ===== *)
theory Http
  imports Complex_Main Prelude Jsonutil "HOL-Library.AList"
begin

text \<open>
  \<open>httpkit\<close>: the middlewares, the JSON responses and the router's and the server's
  construction. The response writer of \<open>net/http\<close> is modelled as far as the code uses it: headers
  under canonical keys, the first final status fixes the headers that are sent, a write sends status
  200 if none was set. chi, otelchi, the limiter of \<open>x/time/rate\<close> and promhttp are parameters.
\<close>

section \<open>Requests and responses\<close>

record request =
  rmethod :: string
  rpath :: string
  rheader :: "string \<Rightarrow> string"             \<comment> \<open>\<open>Header.Get\<close>, empty if absent\<close>
  rctx :: context_t

type_synonym headers = "(string \<times> string) list"

record 'u exchange =
  clock :: int
  hdr :: headers
  sent :: "(int \<times> headers) option"          \<comment> \<open>the final status with the headers sent\<close>
  body :: string
  net_err :: "gerror option"                \<comment> \<open>what writing to the connection fails with\<close>
  warned :: nat                             \<comment> \<open>warnings logged\<close>
  env :: 'u                                 \<comment> \<open>everything else handlers and limiters touch\<close>

type_synonym 'u http_handler = "request \<Rightarrow> 'u exchange \<Rightarrow> unit outcome \<times> 'u exchange"
type_synonym 'u middleware = "'u http_handler \<Rightarrow> 'u http_handler"

definition hdr_Set :: "string \<Rightarrow> string \<Rightarrow> 'u exchange \<Rightarrow> 'u exchange" where
  "hdr_Set k v w = w\<lparr>hdr := AList.update k v (hdr w)\<rparr>"

text \<open>\<open>WriteHeader\<close> panics for an invalid code, sends an informational one without finishing, and is
  ignored once a status was sent.\<close>

definition WriteHeader :: "int \<Rightarrow> 'u exchange \<Rightarrow> unit outcome \<times> 'u exchange" where
  "WriteHeader status w =
     (if sent w \<noteq> None then (Returns (), w)
      else if status < 100 \<or> status > 999 then (Panics (PMsg ''invalid WriteHeader code''), w)
      else if status < 200 \<and> status \<noteq> 101 then (Returns (), w)
      else (Returns (), w\<lparr>sent := Some (status, hdr w)\<rparr>))"

definition body_allowed :: "int \<Rightarrow> bool" where
  "body_allowed status \<longleftrightarrow> \<not> (100 \<le> status \<and> status \<le> 199) \<and> status \<noteq> 204 \<and> status \<noteq> 304"

definition ErrBodyNotAllowed :: gerror where
  "ErrBodyNotAllowed = Sentinel ''http: request method or response status code does not allow body''"

definition Write :: "string \<Rightarrow> 'u exchange \<Rightarrow> gerror option \<times> 'u exchange" where
  "Write data w =
     (let w = (if sent w = None then w\<lparr>sent := Some (200, hdr w)\<rparr> else w)
      in if data = [] then (None, w)
         else if \<not> body_allowed (fst (the (sent w))) then (Some ErrBodyNotAllowed, w)
         else (case net_err w of
                 Some e \<Rightarrow> (Some e, w)
               | None \<Rightarrow> (None, w\<lparr>body := body w @ data\<rparr>)))"

section \<open>Middlewares\<close>

definition security_headers :: headers where
  "security_headers =
     [(''Strict-Transport-Security'', ''max-age=63072000; includeSubDomains; preload''),
      (''X-Content-Type-Options'', ''nosniff''),
      (''X-Frame-Options'', ''DENY''),
      (''Referrer-Policy'', ''strict-origin-when-cross-origin''),
      (''Permissions-Policy'', ''camera=(), microphone=(), geolocation=()''),
      (''X-Xss-Protection'', ''1; mode=block''),
      (''Content-Security-Policy'', ''default-src '' @ [CHR 0x27] @ ''self'' @ [CHR 0x27])]"

definition SecurityHeadersMiddleware :: "'u middleware" where
  "SecurityHeadersMiddleware next r w =
     (if ctx_err (rctx r) (clock w) \<noteq> None then WriteHeader 499 w
      else next r (fold (\<lambda>(k, v). hdr_Set k v) security_headers w))"

text \<open>\<open>Allow\<close> of a limiter acts on the environment; a nil limiter is no limiter.\<close>

type_synonym 'u rate_limiter = "'u \<Rightarrow> bool \<times> 'u"

definition too_many_body :: string where
  "too_many_body = ''{'' @ [CHR 0x22] @ ''error'' @ [CHR 0x22] @ '':'' @ [CHR 0x22] @ ''Too Many Requests''
     @ [CHR 0x22] @ '','' @ [CHR 0x22] @ ''code'' @ [CHR 0x22] @ '':429}''"

definition json_content_type :: string where
  "json_content_type = ''application/json; charset=utf-8''"

definition RateLimitMiddleware :: "'u rate_limiter option \<Rightarrow> 'u middleware" where
  "RateLimitMiddleware limiter next =
     (case limiter of
        None \<Rightarrow> next
      | Some Allow \<Rightarrow> (\<lambda>r w.
          if ctx_err (rctx r) (clock w) \<noteq> None then WriteHeader 499 w
          else if rpath r = ''/metrics'' then next r w
          else (let (ok, e) = Allow (env w); w = w\<lparr>env := e\<rparr>
                in if \<not> ok then
                     (let w = hdr_Set ''Retry-After'' ''1'' w;
                          w = hdr_Set ''Content-Type'' json_content_type w
                      in case WriteHeader 429 w of
                           (Panics v, w) \<Rightarrow> (Panics v, w)
                         | (Returns u, w) \<Rightarrow> (Returns (), snd (Write too_many_body w)))
                   else next r w)))"

text \<open>The loop that builds the origin set and looks for the wildcard.\<close>

fun scan_origins :: "string list \<Rightarrow> string set \<Rightarrow> bool \<Rightarrow> string set \<times> bool" where
  "scan_origins [] originsSet allowAll = (originsSet, allowAll)"
| "scan_origins (o1 # os) originsSet allowAll =
     scan_origins os (insert o1 originsSet) (if o1 = ''*'' then True else allowAll)"

definition cors_headers ::
    "string set \<Rightarrow> bool \<Rightarrow> string \<Rightarrow> string \<Rightarrow> string \<Rightarrow> 'u exchange \<Rightarrow> 'u exchange" where
  "cors_headers originsSet allowAll methodsStr headersStr origin w =
     (if origin \<noteq> [] \<and> (allowAll \<or> origin \<in> originsSet) then
        (let w = (if allowAll then hdr_Set ''Access-Control-Allow-Origin'' ''*'' w
                  else hdr_Set ''Vary'' ''Origin''
                        (hdr_Set ''Access-Control-Allow-Credentials'' ''true''
                          (hdr_Set ''Access-Control-Allow-Origin'' origin w)));
             w = hdr_Set ''Access-Control-Allow-Methods'' methodsStr w;
             w = hdr_Set ''Access-Control-Allow-Headers'' headersStr w
         in hdr_Set ''Access-Control-Max-Age'' ''86400'' w)
      else w)"

definition CORSMiddleware :: "string list \<Rightarrow> string list \<Rightarrow> string list \<Rightarrow> 'u middleware" where
  "CORSMiddleware allowedOrigins allowedMethods allowedHeaders next =
     (let (originsSet, allowAll) = scan_origins allowedOrigins {} False;
          methodsStr = Join allowedMethods '', '';
          headersStr = Join allowedHeaders '', ''
      in (\<lambda>r w.
          if ctx_err (rctx r) (clock w) \<noteq> None then WriteHeader 499 w
          else (let w = cors_headers originsSet allowAll methodsStr headersStr (rheader r ''Origin'') w
                in if rmethod r = ''OPTIONS'' then WriteHeader 204 w else next r w)))"

section \<open>Responses\<close>

definition marshal_failure_body :: string where
  "marshal_failure_body = ''{'' @ [CHR 0x22] @ ''error'' @ [CHR 0x22] @ '':'' @ [CHR 0x22]
     @ ''internal server error'' @ [CHR 0x22] @ '','' @ [CHR 0x22] @ ''code'' @ [CHR 0x22] @ '':500}''"

text \<open>\<open>Marshal\<close> is goccy's JSON encoder, called through \<open>jsonutil\<close>.\<close>

definition JSON :: "('d \<Rightarrow> gerror + string) \<Rightarrow> int \<Rightarrow> 'd \<Rightarrow> 'u exchange \<Rightarrow> unit outcome \<times> 'u exchange" where
  "JSON Marshal status data w =
     (case json_Marshal Marshal data of
        Inl err \<Rightarrow>
          (case WriteHeader 500 (hdr_Set ''Content-Type'' json_content_type w) of
             (Panics v, w) \<Rightarrow> (Panics v, w)
           | (Returns u, w) \<Rightarrow> (Returns (), snd (Write marshal_failure_body w)))
      | Inr b \<Rightarrow>
          (case WriteHeader status (hdr_Set ''Content-Type'' json_content_type w) of
             (Panics v, w) \<Rightarrow> (Panics v, w)
           | (Returns u, w) \<Rightarrow>
               (case Write b w of
                  (Some e, w) \<Rightarrow> (Returns (), w\<lparr>warned := warned w + 1\<rparr>)
                | (None, w) \<Rightarrow> (Returns (), w))))"

record ErrorResponse =
  er_error :: string
  er_code :: int
  er_message :: string

definition Http_Error ::
    "(ErrorResponse \<Rightarrow> gerror + string) \<Rightarrow> (int \<Rightarrow> string) \<Rightarrow> int \<Rightarrow> string \<Rightarrow> 'u exchange
     \<Rightarrow> unit outcome \<times> 'u exchange" where
  "Http_Error Marshal StatusText status message w =
     JSON Marshal status \<lparr>er_error = StatusText status, er_code = status, er_message = message\<rparr> w"

definition Http_Ok :: "('d \<Rightarrow> gerror + string) \<Rightarrow> 'd \<Rightarrow> 'u exchange \<Rightarrow> unit outcome \<times> 'u exchange" where
  "Http_Ok Marshal data w = JSON Marshal 200 data w"

definition Http_Created :: "('d \<Rightarrow> gerror + string) \<Rightarrow> 'd \<Rightarrow> 'u exchange \<Rightarrow> unit outcome \<times> 'u exchange" where
  "Http_Created Marshal data w = JSON Marshal 201 data w"

definition NoContent :: "'u exchange \<Rightarrow> unit outcome \<times> 'u exchange" where
  "NoContent w = WriteHeader 204 w"

section \<open>Router configuration\<close>

text \<open>The \<open>float64\<close> rate is the rational it denotes.\<close>

record 'u RouterConfig =
  RateLimiter :: "'u rate_limiter option"
  AllowedOrigins :: "string list"
  AllowedMethods :: "string list"
  AllowedHeaders :: "string list"
  RateLimit :: rat
  RateBurst :: int
  ReadTimeout :: int
  ReadHeaderTimeout :: int
  WriteTimeout :: int
  IdleTimeout :: int
  EnableLogger :: bool
  MetricsPath :: string

definition DefaultRouterConfig :: "'u RouterConfig" where
  "DefaultRouterConfig = \<lparr>
     RateLimiter = None, AllowedOrigins = [],
     AllowedMethods = [''GET'', ''POST'', ''PUT'', ''DELETE'', ''PATCH'', ''OPTIONS''],
     AllowedHeaders = [''Accept'', ''Authorization'', ''Content-Type'', ''X-Request-ID''],
     RateLimit = 100, RateBurst = 200,
     ReadTimeout = 15 * 1000000000, ReadHeaderTimeout = 5 * 1000000000,
     WriteTimeout = 15 * 1000000000, IdleTimeout = 120 * 1000000000,
     EnableLogger = True, MetricsPath = ''/metrics''\<rparr>"

definition WithCORS :: "string list \<Rightarrow> 'u RouterConfig \<Rightarrow> 'u RouterConfig" where
  "WithCORS origins c = c\<lparr>AllowedOrigins := origins\<rparr>"

definition WithCustomRateLimiter :: "'u rate_limiter option \<Rightarrow> 'u RouterConfig \<Rightarrow> 'u RouterConfig" where
  "WithCustomRateLimiter limiter c = c\<lparr>RateLimiter := limiter\<rparr>"

definition WithRateLimit :: "rat \<Rightarrow> int \<Rightarrow> 'u RouterConfig \<Rightarrow> 'u RouterConfig" where
  "WithRateLimit rps burst c = c\<lparr>RateLimit := rps, RateBurst := burst\<rparr>"

definition WithReadTimeout :: "int \<Rightarrow> 'u RouterConfig \<Rightarrow> 'u RouterConfig" where
  "WithReadTimeout d c = c\<lparr>ReadTimeout := d\<rparr>"

definition WithReadHeaderTimeout :: "int \<Rightarrow> 'u RouterConfig \<Rightarrow> 'u RouterConfig" where
  "WithReadHeaderTimeout d c = c\<lparr>ReadHeaderTimeout := d\<rparr>"

definition WithWriteTimeout :: "int \<Rightarrow> 'u RouterConfig \<Rightarrow> 'u RouterConfig" where
  "WithWriteTimeout d c = c\<lparr>WriteTimeout := d\<rparr>"

definition WithIdleTimeout :: "int \<Rightarrow> 'u RouterConfig \<Rightarrow> 'u RouterConfig" where
  "WithIdleTimeout d c = c\<lparr>IdleTimeout := d\<rparr>"

definition WithLogger :: "bool \<Rightarrow> 'u RouterConfig \<Rightarrow> 'u RouterConfig" where
  "WithLogger enabled c = c\<lparr>EnableLogger := enabled\<rparr>"

definition WithMetricsPath :: "string \<Rightarrow> 'u RouterConfig \<Rightarrow> 'u RouterConfig" where
  "WithMetricsPath path c = c\<lparr>MetricsPath := path\<rparr>"

definition parseOptions :: "('u RouterConfig \<Rightarrow> 'u RouterConfig) option list \<Rightarrow> 'u RouterConfig" where
  "parseOptions opts = apply_options opts DefaultRouterConfig"

text \<open>
  The router: the middlewares in the order of \<open>Use\<close>, and the routes registered. The library's own
  middlewares are named; otelchi carries the path its filter excludes.
\<close>

datatype 'u mux_middleware =
    Otelchi "string option"
  | RequestID
  | RealIP
  | Recoverer
  | Logger
  | Own "'u middleware"

record 'u router =
  used :: "'u mux_middleware list"
  routes :: "string list"

text \<open>
  Conversion of a float to int truncates towards zero; what it gives for a rate beyond the range of int,
  Go leaves to the implementation, and the model takes the integer itself.
\<close>

definition int_of_float :: "rat \<Rightarrow> int" where
  "int_of_float x = (if 0 \<le> x then \<lfloor>x\<rfloor> else \<lceil>x\<rceil>)"

definition router_burst :: "'u RouterConfig \<Rightarrow> int" where
  "router_burst cfg = (if RateBurst cfg \<le> 0 then int_of_float (RateLimit cfg) else RateBurst cfg)"

definition limiting :: "(rat \<Rightarrow> int \<Rightarrow> 'u rate_limiter) \<Rightarrow> 'u RouterConfig \<Rightarrow> 'u mux_middleware list" where
  "limiting NewLimiter cfg =
     (if RateLimiter cfg \<noteq> None then [Own (RateLimitMiddleware (RateLimiter cfg))]
      else if RateLimit cfg > 0 then
        [Own (RateLimitMiddleware (Some (NewLimiter (RateLimit cfg) (router_burst cfg))))]
      else [])"

definition NewRouter ::
    "(rat \<Rightarrow> int \<Rightarrow> 'u rate_limiter) \<Rightarrow> ('u RouterConfig \<Rightarrow> 'u RouterConfig) option list \<Rightarrow> 'u router" where
  "NewRouter NewLimiter opts =
     (let cfg = parseOptions opts
      in \<lparr>used =
            [Otelchi (if MetricsPath cfg \<noteq> [] then Some (MetricsPath cfg) else None),
             RequestID, RealIP, Recoverer]
            @ (if EnableLogger cfg then [Logger] else [])
            @ [Own SecurityHeadersMiddleware]
            @ limiting NewLimiter cfg
            @ (if length (AllowedOrigins cfg) > 0
               then [Own (CORSMiddleware (AllowedOrigins cfg) (AllowedMethods cfg) (AllowedHeaders cfg))]
               else []),
          routes = (if MetricsPath cfg \<noteq> [] then [MetricsPath cfg] else [])\<rparr>)"

record 'h http_server =
  srv_addr :: string
  srv_handler :: 'h
  srv_ReadTimeout :: int
  srv_ReadHeaderTimeout :: int
  srv_WriteTimeout :: int
  srv_IdleTimeout :: int

definition Http_NewServer ::
    "string \<Rightarrow> 'h \<Rightarrow> ('u RouterConfig \<Rightarrow> 'u RouterConfig) option list \<Rightarrow> 'h http_server" where
  "Http_NewServer a handler opts =
     (let cfg = parseOptions opts
      in \<lparr>srv_addr = a, srv_handler = handler, srv_ReadTimeout = ReadTimeout cfg,
          srv_ReadHeaderTimeout = ReadHeaderTimeout cfg, srv_WriteTimeout = WriteTimeout cfg,
          srv_IdleTimeout = IdleTimeout cfg\<rparr>)"

end
