(* ===== verification/HttpSpec.thy ===== *)
theory HttpSpec
  imports Http
begin

text \<open>
  Properties of the HTTP kit: what happens to a request on its way through the package's middlewares,
  the CORS policy, the JSON responses, the options, and two consequences of the configuration that its
  documentation does not mention.
\<close>

section \<open>Requests whose client is gone\<close>

text \<open>
  The contract every middleware of the package keeps: a request whose context is done is answered 499,
  and nothing behind the middleware runs.
\<close>

locale abort_aware =
  fixes mid :: "'u middleware"
  assumes gone: "ctx_err (rctx r) (clock w) \<noteq> None \<Longrightarrow> mid next r w = WriteHeader 499 w"
begin

lemma gone_status:
  "ctx_err (rctx r) (clock w) \<noteq> None \<Longrightarrow> sent w = None \<Longrightarrow>
   mid next r w = (Returns (), w\<lparr>sent := Some (499, hdr w)\<rparr>)"
  by (simp add: gone WriteHeader_def)

lemma gone_next: "ctx_err (rctx r) (clock w) \<noteq> None \<Longrightarrow> mid next r w = mid next' r w"
  by (simp add: gone)

end

interpretation security: abort_aware SecurityHeadersMiddleware
  by unfold_locales (simp add: SecurityHeadersMiddleware_def)

interpretation limit: abort_aware "RateLimitMiddleware (Some Allow)" for Allow
  by unfold_locales (simp add: RateLimitMiddleware_def)

interpretation cors: abort_aware "CORSMiddleware origins methods hdrs" for origins methods hdrs
  by unfold_locales (auto simp: CORSMiddleware_def split: prod.split)

section \<open>Headers\<close>

definition hdr_get :: "'u exchange \<Rightarrow> string \<Rightarrow> string option" where
  "hdr_get w = map_of (hdr w)"

lemma hdr_get_Set [simp]: "hdr_get (hdr_Set k v w) = (hdr_get w)(k \<mapsto> v)"
  by (simp add: hdr_get_def hdr_Set_def update_conv')

lemma hdr_Set_frame [simp]:
  "clock (hdr_Set k v w) = clock w" "sent (hdr_Set k v w) = sent w" "body (hdr_Set k v w) = body w"
  "env (hdr_Set k v w) = env w" "net_err (hdr_Set k v w) = net_err w" "warned (hdr_Set k v w) = warned w"
  by (simp_all add: hdr_Set_def)

definition secured :: "headers \<Rightarrow> bool" where
  "secured h \<longleftrightarrow> list_all (\<lambda>(k, v). map_of h k = Some v) security_headers"

lemma secured_hdr: "secured (hdr w) = list_all (\<lambda>(k, v). hdr_get w k = Some v) security_headers"
  by (simp add: secured_def hdr_get_def)

definition with_security :: "'u exchange \<Rightarrow> 'u exchange" where
  "with_security w = fold (\<lambda>(k, v). hdr_Set k v) security_headers w"

lemma with_security_frame [simp]:
  "clock (with_security w) = clock w" "sent (with_security w) = sent w" "body (with_security w) = body w"
  "env (with_security w) = env w" "net_err (with_security w) = net_err w"
  by (simp_all add: with_security_def security_headers_def)

lemma with_security_secured: "secured (hdr (with_security w))"
  by (simp add: secured_hdr with_security_def security_headers_def)

lemma with_security_other: "k \<notin> fst ` set security_headers \<Longrightarrow> hdr_get (with_security w) k = hdr_get w k"
  by (auto simp: with_security_def security_headers_def)

lemma secured_Set: "secured (hdr w) \<Longrightarrow> k \<notin> fst ` set security_headers \<Longrightarrow> secured (hdr (hdr_Set k v w))"
  unfolding secured_hdr list_all_iff by (force simp: image_iff)

lemma scan_origins_eq: "scan_origins os S b = (S \<union> set os, b \<or> ''*'' \<in> set os)"
  by (induction os S b rule: scan_origins.induct) auto

lemma cors_headers_frame [simp]:
  "clock (cors_headers S b ms hs og w) = clock w" "sent (cors_headers S b ms hs og w) = sent w"
  "body (cors_headers S b ms hs og w) = body w" "env (cors_headers S b ms hs og w) = env w"
  by (simp_all add: cors_headers_def Let_def)

lemma cors_headers_secured:
  "secured (hdr w) \<Longrightarrow> secured (hdr (cors_headers S b ms hs og w))"
  by (simp add: cors_headers_def Let_def secured_Set security_headers_def)

section \<open>The way of a request\<close>

text \<open>What the package's middlewares decide, from the limiter's answer to the method.\<close>

datatype verdict = Gone | TooMany | Preflight | Forward

text \<open>The limiter's answer, and the limiter's state after it.\<close>

definition limiter_answer :: "'u rate_limiter option \<Rightarrow> request \<Rightarrow> 'u \<Rightarrow> bool \<times> 'u" where
  "limiter_answer limiter r e =
     (case limiter of
        None \<Rightarrow> (True, e)
      | Some Allow \<Rightarrow> if rpath r = ''/metrics'' then (True, e) else Allow e)"

definition verdict_of ::
    "'u rate_limiter option \<Rightarrow> string list \<Rightarrow> request \<Rightarrow> 'u exchange \<Rightarrow> verdict \<times> 'u" where
  "verdict_of limiter origins r w =
     (if ctx_err (rctx r) (clock w) \<noteq> None then (Gone, env w)
      else (case limiter_answer limiter r (env w) of
              (ok, e) \<Rightarrow>
                if \<not> ok then (TooMany, e)
                else if origins \<noteq> [] \<and> rmethod r = ''OPTIONS'' then (Preflight, e)
                else (Forward, e)))"

fun is_own :: "'u mux_middleware \<Rightarrow> bool" where
  "is_own (Own m) = True"
| "is_own m = False"

definition own_part :: "'u router \<Rightarrow> 'u mux_middleware list" where
  "own_part rt = dropWhile (\<lambda>m. \<not> is_own m) (used rt)"

definition effective_limiter ::
    "(rat \<Rightarrow> int \<Rightarrow> 'u rate_limiter) \<Rightarrow> 'u RouterConfig \<Rightarrow> 'u rate_limiter option" where
  "effective_limiter NewLimiter cfg =
     (if RateLimiter cfg \<noteq> None then RateLimiter cfg
      else if RateLimit cfg > 0 then Some (NewLimiter (RateLimit cfg) (router_burst cfg)) else None)"

lemma own_part_NewRouter:
  "own_part (NewRouter NL opts) =
     [Own SecurityHeadersMiddleware] @ limiting NL (parseOptions opts)
     @ (if AllowedOrigins (parseOptions opts) = [] then []
        else [Own (CORSMiddleware (AllowedOrigins (parseOptions opts)) (AllowedMethods (parseOptions opts))
                     (AllowedHeaders (parseOptions opts)))])"
  by (simp add: own_part_def NewRouter_def Let_def)

lemma limiting_chain:
  assumes "\<And>m ms h. chain (Own m # ms) h = m (chain ms h)"
  shows "chain (limiting NL cfg @ ms) h = RateLimitMiddleware (effective_limiter NL cfg) (chain ms h)"
  by (cases "RateLimiter cfg") (auto simp: limiting_def effective_limiter_def assms RateLimitMiddleware_def)

lemma own_stack:
  assumes "\<And>m ms h. chain (Own m # ms) h = m (chain ms h)"
  shows "chain (own_part (NewRouter NL opts)) h
    = SecurityHeadersMiddleware (RateLimitMiddleware (effective_limiter NL (parseOptions opts))
        (chain (if AllowedOrigins (parseOptions opts) = [] then []
           else [Own (CORSMiddleware (AllowedOrigins (parseOptions opts)) (AllowedMethods (parseOptions opts))
                        (AllowedHeaders (parseOptions opts)))]) h))"
  unfolding own_part_NewRouter append_Cons append_Nil assms
  using limiting_chain [where chain = chain and NL = NL and cfg = "parseOptions opts", OF assms] by simp

text \<open>The limiter's stage, for a live request.\<close>

lemma rate_limit_admits:
  assumes "limiter_answer limiter r (env w) = (True, e)" "ctx_err (rctx r) (clock w) = None"
  shows "RateLimitMiddleware limiter next r w = next r (w\<lparr>env := e\<rparr>)"
  using assms by (auto simp: limiter_answer_def RateLimitMiddleware_def split: option.splits if_splits)

lemma rate_limit_refuses:
  assumes "limiter_answer limiter r (env w) = (False, e)" "ctx_err (rctx r) (clock w) = None"
    and "secured (hdr w)" "sent w = None" "net_err w = None" "body w = []"
  shows "\<exists>w'. secured (hdr w') \<and> hdr_get w' ''Retry-After'' = Some ''1'' \<and> env w' = e
    \<and> RateLimitMiddleware limiter next r w = (Returns (), w'\<lparr>sent := Some (429, hdr w'), body := too_many_body\<rparr>)"
proof -
  let ?w' = "hdr_Set ''Content-Type'' json_content_type (hdr_Set ''Retry-After'' ''1'' (w\<lparr>env := e\<rparr>))"
  have "secured (hdr ?w')" using assms(3) by (intro secured_Set) (simp_all add: security_headers_def)
  with assms show ?thesis
    by (intro exI [of _ ?w'])
      (auto simp: limiter_answer_def RateLimitMiddleware_def WriteHeader_def Write_def body_allowed_def Let_def
        too_many_body_def split: option.splits if_splits)
qed

text \<open>The inner part: the origin policy, if there is one, in front of the handler.\<close>

lemma cors_chain:
  assumes "\<And>m ms h. chain (Own m # ms) h = m (chain ms h)" "chain [] h = h"
    and "ctx_err (rctx r) (clock w) = None" "secured (hdr w)" "sent w = None"
  shows "\<exists>w'. secured (hdr w') \<and> env w' = env w \<and> body w' = body w \<and> sent w' = None \<and>
    chain (if os = [] then [] else [Own (CORSMiddleware os ms hs)]) h r w =
      (if os \<noteq> [] \<and> rmethod r = ''OPTIONS'' then (Returns (), w'\<lparr>sent := Some (204, hdr w')\<rparr>) else h r w')"
proof (cases "os = []")
  case True
  with assms show ?thesis by (intro exI [of _ w]) simp
next
  case False
  let ?w = "cors_headers (set os) (''*'' \<in> set os) (Join ms '', '') (Join hs '', '') (rheader r ''Origin'') w"
  have "chain [Own (CORSMiddleware os ms hs)] h r w
      = (if rmethod r = ''OPTIONS'' then WriteHeader 204 ?w else h r ?w)"
    by (simp add: assms CORSMiddleware_def scan_origins_eq)
  with False assms show ?thesis
    by (intro exI [of _ ?w]) (simp add: cors_headers_secured WriteHeader_def)
qed

section \<open>Properties\<close>

text \<open>
  C8: the way of a request through a router. For any options, and a mux that runs its middlewares
  outermost first, the package's own middlewares do exactly what the verdict says: a request whose
  client is gone is answered 499 and nothing else happens; one over the limit is answered 429 with
  \<open>Retry-After\<close> and the handler is not called; a preflight is answered 204; any other reaches the
  handler once. Every answer but the first, and every call of the handler, carries all seven security
  headers.
\<close>

theorem router_request_verdict:
  assumes chain: "\<And>m ms h. chain (Own m # ms) h = m (chain ms h)" "\<And>h. chain [] h = h"
    and fresh: "sent w = None" "net_err w = None" "body w = []"
  shows "\<exists>w'. snd (verdict_of (effective_limiter NL (parseOptions opts)) (AllowedOrigins (parseOptions opts)) r w) = env w' \<and>
    (case fst (verdict_of (effective_limiter NL (parseOptions opts)) (AllowedOrigins (parseOptions opts)) r w) of
       Gone \<Rightarrow> w' = w \<and> chain (own_part (NewRouter NL opts)) h r w = (Returns (), w\<lparr>sent := Some (499, hdr w)\<rparr>)
     | TooMany \<Rightarrow> secured (hdr w') \<and> hdr_get w' ''Retry-After'' = Some ''1''
         \<and> chain (own_part (NewRouter NL opts)) h r w
           = (Returns (), w'\<lparr>sent := Some (429, hdr w'), body := too_many_body\<rparr>)
     | Preflight \<Rightarrow> secured (hdr w')
         \<and> chain (own_part (NewRouter NL opts)) h r w = (Returns (), w'\<lparr>sent := Some (204, hdr w')\<rparr>)
     | Forward \<Rightarrow> secured (hdr w') \<and> sent w' = None
         \<and> chain (own_part (NewRouter NL opts)) h r w = h r w')"
proof -
  let ?cfg = "parseOptions opts"
  let ?os = "AllowedOrigins ?cfg" and ?lim = "effective_limiter NL ?cfg" and ?w1 = "with_security w"
  let ?rest = "chain (if ?os = [] then [] else [Own (CORSMiddleware ?os (AllowedMethods ?cfg) (AllowedHeaders ?cfg))]) h"
  note stack = own_stack [where chain = chain and NL = NL and opts = opts and h = h, OF chain(1)]
  show ?thesis
  proof (cases "ctx_err (rctx r) (clock w) = None")
    case False
    then show ?thesis
      using fresh by (auto simp: stack verdict_of_def security.gone_status)
  next
    case live: True
    have step: "chain (own_part (NewRouter NL opts)) h r w = RateLimitMiddleware ?lim ?rest r ?w1"
      using live by (simp add: stack SecurityHeadersMiddleware_def with_security_def)
    obtain ok e where adm: "limiter_answer ?lim r (env w) = (ok, e)" by (cases "limiter_answer ?lim r (env w)")
    show ?thesis
    proof (cases ok)
      case True
      have "\<exists>w'. secured (hdr w') \<and> env w' = e \<and> sent w' = None \<and> ?rest r (?w1\<lparr>env := e\<rparr>) =
          (if ?os \<noteq> [] \<and> rmethod r = ''OPTIONS'' then (Returns (), w'\<lparr>sent := Some (204, hdr w')\<rparr>) else h r w')"
        using cors_chain [where chain = chain and h = h, OF chain, of r "?w1\<lparr>env := e\<rparr>" ?os
            "AllowedMethods ?cfg" "AllowedHeaders ?cfg"] live fresh with_security_secured [of w] by auto
      then obtain w' where "secured (hdr w')" "env w' = e" "sent w' = None" "?rest r (?w1\<lparr>env := e\<rparr>) =
          (if ?os \<noteq> [] \<and> rmethod r = ''OPTIONS'' then (Returns (), w'\<lparr>sent := Some (204, hdr w')\<rparr>) else h r w')"
        by blast
      with rate_limit_admits [of ?lim r ?w1 e ?rest] adm True live step show ?thesis
        by (intro exI [of _ w']) (simp add: verdict_of_def)
    next
      case False
      obtain w' where "secured (hdr w')" "hdr_get w' ''Retry-After'' = Some ''1''" "env w' = e"
        "RateLimitMiddleware ?lim ?rest r ?w1
          = (Returns (), w'\<lparr>sent := Some (429, hdr w'), body := too_many_body\<rparr>)"
        using rate_limit_refuses [of ?lim r ?w1 e ?rest] False adm live fresh with_security_secured [of w]
        by auto
      with False adm live step show ?thesis by (intro exI [of _ w']) (simp add: verdict_of_def)
    qed
  qed
qed

text \<open>A mux for the witnesses, in which the library's own middlewares do nothing.\<close>

fun mux_chain :: "'u mux_middleware list \<Rightarrow> 'u middleware" where
  "mux_chain [] h = h"
| "mux_chain (Own m # ms) h = m (mux_chain ms h)"
| "mux_chain (m # ms) h = mux_chain ms h"

definition get_request :: "string \<Rightarrow> request" where
  "get_request path = \<lparr>rmethod = ''GET'', rpath = path, rheader = (\<lambda>_. []), rctx = background\<rparr>"

definition fresh_exchange :: "nat exchange" where
  "fresh_exchange = \<lparr>clock = 0, hdr = [], sent = None, body = [], net_err = None, warned = 0, env = 0\<rparr>"

definition refusing :: "nat rate_limiter" where
  "refusing e = (False, e + 1)"

definition quiet_handler :: "'u http_handler" where
  "quiet_handler r w = (Returns (), w)"

theorem router_request_verdict_witness:
  "\<exists>w'. env w' = 1 \<and> secured (hdr w') \<and>
    mux_chain (own_part (NewRouter (\<lambda>_ _. refusing) [Some (WithCustomRateLimiter (Some refusing)), None]))
      quiet_handler (get_request ''/x'') fresh_exchange
    = (Returns (), w'\<lparr>sent := Some (429, hdr w'), body := too_many_body\<rparr>)"
proof -
  let ?opts = "[Some (WithCustomRateLimiter (Some refusing)), None]"
  have "verdict_of (effective_limiter (\<lambda>_ _. refusing) (parseOptions ?opts))
      (AllowedOrigins (parseOptions ?opts)) (get_request ''/x'') fresh_exchange = (TooMany, 1)"
    by (simp add: verdict_of_def limiter_answer_def effective_limiter_def parseOptions_def
        WithCustomRateLimiter_def DefaultRouterConfig_def get_request_def fresh_exchange_def refusing_def)
  with router_request_verdict [of mux_chain fresh_exchange "\<lambda>_ _. refusing" ?opts
      "get_request ''/x''" quiet_handler]
  show ?thesis by (force simp: fresh_exchange_def)
qed

definition origin_allowed :: "string list \<Rightarrow> string \<Rightarrow> bool" where
  "origin_allowed origins origin \<longleftrightarrow> origin \<noteq> [] \<and> (origin \<in> set origins \<or> ''*'' \<in> set origins)"

text \<open>
  C32: the CORS policy. For a live request to a writer without CORS headers, an origin is allowed when
  it is non-empty and listed, or the list has the wildcard; then the answer names the wildcard without
  credentials if the list has it, and otherwise exactly that origin, with credentials and with
  \<open>Vary\<close>, and the methods are the configured ones; for any other request no header is added. A
  preflight never reaches the handler.
\<close>

theorem cors_policy:
  assumes "ctx_err (rctx r) (clock w) = None"
    and "hdr_get w ''Access-Control-Allow-Origin'' = None"
    and "hdr_get w ''Access-Control-Allow-Credentials'' = None"
  shows "\<exists>w'. CORSMiddleware origins methods hdrs next r w =
      (if rmethod r = ''OPTIONS'' then WriteHeader 204 w' else next r w')
    \<and> (if origin_allowed origins (rheader r ''Origin'') then
         hdr_get w' ''Access-Control-Allow-Methods'' = Some (Join methods '', '') \<and>
         (if ''*'' \<in> set origins then
            hdr_get w' ''Access-Control-Allow-Origin'' = Some ''*'' \<and>
            hdr_get w' ''Access-Control-Allow-Credentials'' = None
          else
            hdr_get w' ''Access-Control-Allow-Origin'' = Some (rheader r ''Origin'') \<and>
            hdr_get w' ''Access-Control-Allow-Credentials'' = Some ''true'' \<and>
            hdr_get w' ''Vary'' = Some ''Origin'')
       else w' = w)
    \<and> env w' = env w"
proof -
  let ?w = "cors_headers (set origins) (''*'' \<in> set origins) (Join methods '', '') (Join hdrs '', '')
    (rheader r ''Origin'') w"
  have "CORSMiddleware origins methods hdrs next r w =
      (if rmethod r = ''OPTIONS'' then WriteHeader 204 ?w else next r ?w)"
    using assms(1) by (simp add: CORSMiddleware_def scan_origins_eq)
  then show ?thesis
    using assms(2,3) by (intro exI [of _ ?w]) (auto simp: cors_headers_def origin_allowed_def Let_def)
qed

theorem cors_policy_witness:
  "\<exists>w'. CORSMiddleware [''https://a''] [] [] quiet_handler ((get_request ''/'')\<lparr>rheader := (\<lambda>_. ''https://a'')\<rparr>)
      fresh_exchange = (Returns (), w')
    \<and> hdr_get w' ''Access-Control-Allow-Origin'' = Some ''https://a''"
  using cors_policy [of "(get_request ''/'')\<lparr>rheader := (\<lambda>_. ''https://a'')\<rparr>" fresh_exchange
    "[''https://a'']" "[]" "[]" quiet_handler]
  by (force simp: get_request_def fresh_exchange_def hdr_get_def origin_allowed_def quiet_handler_def)

text \<open>
  A JSON response is complete on every branch. On a fresh writer with a working connection and a
  status that allows a body, the status is the one asked for with the encoded data, or 500 with the
  fixed error body if the data cannot be encoded; the content type is JSON in both cases, and nothing
  panics.
\<close>

theorem json_response_complete:
  assumes "sent w = None" "net_err w = None" "200 \<le> status" "status \<le> 999" "body_allowed status"
  shows "\<exists>h. map_of h ''Content-Type'' = Some json_content_type \<and>
    JSON Marshal status data w = (Returns (),
      (case Marshal data of
         Inr b \<Rightarrow> w\<lparr>hdr := h, sent := Some (status, h), body := body w @ b\<rparr>
       | Inl e \<Rightarrow> w\<lparr>hdr := h, sent := Some (500, h), body := body w @ marshal_failure_body\<rparr>))"
  using assms
  by (intro exI [of _ "AList.update ''Content-Type'' json_content_type (hdr w)"])
     (auto simp: JSON_def json_Marshal_def WriteHeader_def Write_def Let_def hdr_Set_def update_conv' body_allowed_def
       marshal_failure_body_def split: sum.split)

theorem json_response_complete_witness:
  "\<exists>h. map_of h ''Content-Type'' = Some json_content_type \<and>
    JSON (\<lambda>d::nat. Inl (Opaque d)) 201 7 fresh_exchange
    = (Returns (), fresh_exchange\<lparr>hdr := h, sent := Some (500, h), body := marshal_failure_body\<rparr>)"
  using json_response_complete [of fresh_exchange 201 "\<lambda>d::nat. Inl (Opaque d)" 7]
  by (auto simp: fresh_exchange_def body_allowed_def)

definition metrics_options ::
    "'u rate_limiter \<Rightarrow> string \<Rightarrow> ('u RouterConfig \<Rightarrow> 'u RouterConfig) option list" where
  "metrics_options Allow p = [Some (WithCustomRateLimiter (Some Allow)), Some (WithMetricsPath p)]"

text \<open>
  A configured metrics path is throttled, and the default path never is. With
  \<open>WithMetricsPath p\<close> the metrics are served under \<open>p\<close>, but the limiter's exemption is for the
  literal path \<open>/metrics\<close>: a scrape of \<open>p\<close> over the limit is answered 429, although the option says
  it bypasses rate limiting, and a request to \<open>/metrics\<close> is never counted, whatever is served there.
\<close>

theorem custom_metrics_path_throttled:
  assumes chain: "\<And>m ms h. chain (Own m # ms) h = m (chain ms h)" "\<And>h. chain [] h = h"
    and fresh: "sent w = None" "net_err w = None" "body w = []" "ctx_err (rctx r) (clock w) = None"
    and p: "p \<noteq> ''/metrics''" "p \<noteq> []" and refuses: "fst (Allow (env w)) = False"
  shows "routes (NewRouter NL (metrics_options Allow p)) = [p]
    \<and> (\<exists>hs. sent (snd (chain (own_part (NewRouter NL (metrics_options Allow p))) h (r\<lparr>rpath := p\<rparr>) w)) = Some (429, hs))
    \<and> (\<exists>w'. env w' = env w \<and> chain (own_part (NewRouter NL (metrics_options Allow p))) h (r\<lparr>rpath := ''/metrics''\<rparr>) w = h (r\<lparr>rpath := ''/metrics''\<rparr>) w')"
proof -
  let ?rt = "NewRouter NL (metrics_options Allow p)"
  have part: "own_part ?rt = [Own SecurityHeadersMiddleware, Own (RateLimitMiddleware (Some Allow))]"
    by (simp add: metrics_options_def own_part_NewRouter limiting_def parseOptions_def WithCustomRateLimiter_def
        WithMetricsPath_def DefaultRouterConfig_def)
  have "routes ?rt = [p]"
    using p by (simp add: metrics_options_def NewRouter_def Let_def parseOptions_def WithCustomRateLimiter_def
        WithMetricsPath_def DefaultRouterConfig_def)
  moreover obtain e where "Allow (env w) = (False, e)" using refuses by (metis surjective_pairing)
  then have "\<exists>hs. sent (snd (chain (own_part ?rt) h (r\<lparr>rpath := p\<rparr>) w)) = Some (429, hs)"
    using fresh p
    by (simp add: part chain SecurityHeadersMiddleware_def with_security_def [symmetric]
        RateLimitMiddleware_def WriteHeader_def Write_def body_allowed_def Let_def too_many_body_def)
  moreover have "chain (own_part ?rt) h (r\<lparr>rpath := ''/metrics''\<rparr>) w = h (r\<lparr>rpath := ''/metrics''\<rparr>) (with_security w)"
    using fresh
    by (simp add: part chain SecurityHeadersMiddleware_def with_security_def [symmetric] RateLimitMiddleware_def)
  ultimately show ?thesis by (metis with_security_frame(4))
qed

theorem custom_metrics_path_throttled_witness:
  "\<exists>hs. sent (snd (mux_chain (own_part (NewRouter (\<lambda>_ _. refusing) (metrics_options refusing ''/internal/metrics'')))
      quiet_handler (get_request ''/internal/metrics'') fresh_exchange)) = Some (429, hs)"
  using custom_metrics_path_throttled [of mux_chain fresh_exchange "get_request ''/internal/metrics''"
    "''/internal/metrics''" refusing "\<lambda>_ _. refusing" quiet_handler]
  by (simp add: fresh_exchange_def get_request_def refusing_def)

text \<open>
  The burst derived from a rate. With no burst configured the limiter's burst is the rate rounded
  down, so it lets requests through exactly for rates of at least one per second: a positive rate
  below that gives a burst of 0, with which the limiter refuses everything.
\<close>

theorem derived_burst_positive_iff:
  assumes "0 < rps" "b \<le> 0"
  shows "0 < router_burst (parseOptions [Some (WithRateLimit rps b)]) \<longleftrightarrow> 1 \<le> rps"
  using assms by (simp add: router_burst_def parseOptions_def WithRateLimit_def int_of_float_def)

theorem derived_burst_positive_iff_witness:
  "\<not> 0 < router_burst (parseOptions [Some (WithRateLimit (1 / 2) 0)])"
  using derived_burst_positive_iff [of "1 / 2" 0] by simp

section \<open>Server options\<close>

text \<open>The options with the durations their documentation asks for.\<close>

inductive router_option :: "('u RouterConfig \<Rightarrow> 'u RouterConfig) \<Rightarrow> bool" where
  "router_option (WithCORS os)"
| "router_option (WithCustomRateLimiter l)"
| "router_option (WithRateLimit rps b)"
| "0 < d \<Longrightarrow> router_option (WithReadTimeout d)"
| "0 < d \<Longrightarrow> router_option (WithReadHeaderTimeout d)"
| "0 < d \<Longrightarrow> router_option (WithWriteTimeout d)"
| "0 < d \<Longrightarrow> router_option (WithIdleTimeout d)"
| "router_option (WithLogger b)"
| "router_option (WithMetricsPath p)"

definition timeouts_bounded :: "'u RouterConfig \<Rightarrow> bool" where
  "timeouts_bounded c \<longleftrightarrow>
     0 < ReadTimeout c \<and> 0 < ReadHeaderTimeout c \<and> 0 < WriteTimeout c \<and> 0 < IdleTimeout c"

lemmas router_option_defs = WithCORS_def WithCustomRateLimiter_def WithRateLimit_def WithReadTimeout_def
  WithReadHeaderTimeout_def WithWriteTimeout_def WithIdleTimeout_def WithLogger_def WithMetricsPath_def

lemma router_option_bounded: "router_option f \<Longrightarrow> timeouts_bounded c \<Longrightarrow> timeouts_bounded (f c)"
  by (induction rule: router_option.induct) (auto simp: timeouts_bounded_def router_option_defs)

interpretation router_opts: option_api DefaultRouterConfig timeouts_bounded router_option
  by unfold_locales (simp add: timeouts_bounded_def DefaultRouterConfig_def, rule router_option_bounded)

text \<open>
  No server without timeouts. Whatever options are given, in any order and with nil ones among
  them, as long as the durations passed are positive, the four timeouts of the server are positive, so
  none of them is the unlimited default of \<open>net/http\<close>.
\<close>

theorem server_timeouts_positive:
  assumes "\<And>f. Some f \<in> set opts \<Longrightarrow> router_option f"
  shows "0 < srv_ReadTimeout (Http_NewServer a h opts) \<and> 0 < srv_ReadHeaderTimeout (Http_NewServer a h opts)
    \<and> 0 < srv_WriteTimeout (Http_NewServer a h opts) \<and> 0 < srv_IdleTimeout (Http_NewServer a h opts)"
  using router_opts.parsed_valid [OF assms]
  by (simp add: Http_NewServer_def Let_def parseOptions_def timeouts_bounded_def)

theorem server_timeouts_positive_witness:
  "0 < srv_ReadTimeout (Http_NewServer '':80'' (0::nat) [Some (WithReadTimeout 5), None, Some (WithLogger False)])"
  by (rule server_timeouts_positive [THEN conjunct1]) (auto intro: router_option.intros)

end
