(* ===== verification/Shutdown.thy ===== *)
theory Shutdown
  imports Prelude
begin

text \<open>
  \<open>GracefulShutdown\<close> of \<open>httpkit/router.go\<close>: a goroutine runs the server and sends its exit error into a
  channel of capacity 1; the caller registers for signals and waits for either. The function is a step
  system of the two goroutines, the two channels and the environment: the server may exit at any
  moment, signals may come at any moment, and \<open>Shutdown\<close> returns what it does. Two ghost fields record
  the error the server exited with and the deadline \<open>Shutdown\<close> was called with.
\<close>

definition ErrServerClosed :: gerror where
  "ErrServerClosed = Sentinel ''http: Server closed''"

text \<open>The two branches of the \<open>select\<close>: the error returned for an exit, the deadline for \<open>Shutdown\<close>.\<close>

definition exit_result :: "gerror option \<Rightarrow> gerror option" where
  "exit_result err = (if err \<noteq> None \<and> \<not> err_is err ErrServerClosed then err else None)"

definition shutdown_deadline :: "int \<Rightarrow> int option" where
  "shutdown_deadline timeout = (if timeout > 0 then Some timeout else None)"

datatype server_thread = Listening | Sending "gerror option" | Sent

datatype gs_main = Notifying | Selecting | Shutting_down "int option" | GS_returned "gerror option"

record gs_sys =
  thread :: server_thread
  serverErr :: "gerror option option"      \<comment> \<open>the channel's slot\<close>
  quit :: bool                             \<comment> \<open>a signal in the channel's slot\<close>
  notified :: bool                         \<comment> \<open>between \<open>signal.Notify\<close> and \<open>signal.Stop\<close>\<close>
  gs_main :: gs_main
  exited :: "gerror option option"         \<comment> \<open>ghost: what \<open>ListenAndServe\<close> returned\<close>
  shut :: "int option option"              \<comment> \<open>ghost: the deadline given to \<open>Shutdown\<close>\<close>

text \<open>
  A signal is dropped when the channel is full, as \<open>signal.Notify\<close> documents. \<open>results\<close> are the values
  \<open>Shutdown\<close> may return for a deadline.
\<close>

inductive gs_step :: "int \<Rightarrow> (int option \<Rightarrow> gerror option set) \<Rightarrow> gs_sys \<Rightarrow> gs_sys \<Rightarrow> bool"
  for timeout :: int and results :: "int option \<Rightarrow> gerror option set" where
  server_exit: "thread s = Listening \<Longrightarrow> gs_step timeout results s (s\<lparr>thread := Sending err, exited := Some err\<rparr>)"
| server_send: "thread s = Sending err \<Longrightarrow> serverErr s = None \<Longrightarrow>
    gs_step timeout results s (s\<lparr>serverErr := Some err, thread := Sent\<rparr>)"
| notify: "gs_main s = Notifying \<Longrightarrow>
    gs_step timeout results s (s\<lparr>notified := True, gs_main := Selecting\<rparr>)"
| signal: "notified s \<Longrightarrow> gs_step timeout results s (s\<lparr>quit := True\<rparr>)"
| select_err: "gs_main s = Selecting \<Longrightarrow> serverErr s = Some err \<Longrightarrow>
    gs_step timeout results s (s\<lparr>serverErr := None, notified := False, gs_main := GS_returned (exit_result err)\<rparr>)"
| select_quit: "gs_main s = Selecting \<Longrightarrow> quit s \<Longrightarrow>
    gs_step timeout results s (s\<lparr>quit := False, gs_main := Shutting_down (shutdown_deadline timeout),
      shut := Some (shutdown_deadline timeout)\<rparr>)"
| shutdown_done: "gs_main s = Shutting_down d \<Longrightarrow> r \<in> results d \<Longrightarrow>
    gs_step timeout results s (s\<lparr>notified := False, gs_main := GS_returned r\<rparr>)"

definition gs_init :: "gs_sys \<Rightarrow> bool" where
  "gs_init s \<longleftrightarrow> s = \<lparr>thread = Listening, serverErr = None, quit = False, notified = False,
     gs_main = Notifying, exited = None, shut = None\<rparr>"

section \<open>The invariant\<close>

fun main_inv :: "int \<Rightarrow> (int option \<Rightarrow> gerror option set) \<Rightarrow> gs_sys \<Rightarrow> gs_main \<Rightarrow> bool" where
  "main_inv timeout results s Notifying = (\<not> notified s \<and> \<not> quit s \<and> shut s = None)"
| "main_inv timeout results s Selecting = (notified s \<and> shut s = None)"
| "main_inv timeout results s (Shutting_down d) =
     (notified s \<and> d = shutdown_deadline timeout \<and> shut s = Some d)"
| "main_inv timeout results s (GS_returned r) =
     (\<not> notified s \<and> (case shut s of
        Some d \<Rightarrow> d = shutdown_deadline timeout \<and> r \<in> results d
      | None \<Rightarrow> thread s = Sent \<and> (\<exists>e. exited s = Some e \<and> r = exit_result e)))"

text \<open>What the server exited with is what its goroutine sends and what is in the channel.\<close>

fun thread_inv :: "gs_sys \<Rightarrow> server_thread \<Rightarrow> bool" where
  "thread_inv s Listening = (exited s = None \<and> serverErr s = None)"
| "thread_inv s (Sending e) = (exited s = Some e \<and> serverErr s = None)"
| "thread_inv s Sent = (case serverErr s of
     Some e \<Rightarrow> exited s = Some e | None \<Rightarrow> \<exists>r. gs_main s = GS_returned r)"

definition gs_inv :: "int \<Rightarrow> (int option \<Rightarrow> gerror option set) \<Rightarrow> gs_sys \<Rightarrow> bool" where
  "gs_inv timeout results s \<longleftrightarrow> main_inv timeout results s (gs_main s) \<and> thread_inv s (thread s)"

lemma gs_step_inv:
  assumes "gs_step timeout results s t" "gs_inv timeout results s"
  shows "gs_inv timeout results t"
  using assms
proof cases
  case server_exit
  with assms(2) show ?thesis by (cases "gs_main s") (auto simp: gs_inv_def split: option.splits)
next
  case server_send
  with assms(2) show ?thesis by (cases "gs_main s") (auto simp: gs_inv_def split: option.splits)
next
  case notify
  with assms(2) show ?thesis by (cases "thread s") (auto simp: gs_inv_def split: option.splits)
next
  case signal
  with assms(2) show ?thesis
    by (cases "gs_main s"; cases "thread s") (auto simp: gs_inv_def split: option.splits)
next
  case (select_err err)
  with assms(2) show ?thesis by (cases "thread s") (auto simp: gs_inv_def)
next
  case select_quit
  with assms(2) show ?thesis by (cases "thread s") (auto simp: gs_inv_def split: option.splits)
next
  case (shutdown_done d r)
  with assms(2) show ?thesis by (cases "thread s") (auto simp: gs_inv_def split: option.splits)
qed

interpretation graceful: inductive_invariant gs_init "gs_step timeout results" "gs_inv timeout results"
  for timeout results
proof unfold_locales
  show "gs_init s \<Longrightarrow> gs_inv timeout results s" for s by (simp add: gs_init_def gs_inv_def)
qed (rule gs_step_inv)

text \<open>The function is never stuck: what each of its stages waits for comes.\<close>

lemma selecting_moves:
  assumes "gs_inv timeout results s" "gs_main s = Selecting" "thread s = Sent \<or> quit s"
  shows "\<exists>t. gs_step timeout results s t \<and> gs_main t \<noteq> Selecting"
proof (cases "quit s")
  case True
  from select_quit [OF assms(2) this, of timeout results] show ?thesis by fastforce
next
  case False
  with assms obtain e where "serverErr s = Some e" by (auto simp: gs_inv_def split: option.splits)
  from select_err [OF assms(2) this, of timeout results] show ?thesis by fastforce
qed

lemma notifying_moves:
  assumes "gs_main s = Notifying"
  shows "\<exists>t. gs_step timeout results s t \<and> gs_main t \<noteq> Notifying"
  using notify [OF assms, of timeout results] by fastforce

lemma shutting_down_moves:
  assumes "gs_main s = Shutting_down d" "results d \<noteq> {}"
  shows "\<exists>t. gs_step timeout results s t \<and> gs_main t \<noteq> Shutting_down d"
proof -
  from assms(2) obtain r where "r \<in> results d" by blast
  then have "gs_step timeout results s (s\<lparr>notified := False, gs_main := GS_returned r\<rparr>)"
    by (rule shutdown_done [OF assms(1)])
  then show ?thesis by fastforce
qed

lemma exit_result_cases:
  "exit_result e = (case e of None \<Rightarrow> None | Some e' \<Rightarrow> if errors_is e' ErrServerClosed then None else Some e')"
  by (auto simp: exit_result_def err_is_def split: option.split)

section \<open>Properties\<close>

text \<open>
  C23: the graceful shutdown leaks nothing and misses nothing. However exits, signals and returns
  interleave, the server's goroutine can always deliver its exit error, also after the function has
  returned, so it ends; the function cannot stay blocked once the server has exited or a signal has
  come; it stops listening for signals when it returns; and if it called \<open>Shutdown\<close>, which was then given
  a deadline exactly if the timeout is positive, it returns what \<open>Shutdown\<close> returned, and otherwise the
  error the server exited with, or nil if that is only that it was closed.
\<close>

theorem graceful_shutdown_no_leak:
  assumes "reachable gs_init (gs_step timeout results) s"
    and "\<And>d. results d \<noteq> {}"
  shows "(thread s = Sending err \<longrightarrow>
            gs_step timeout results s (s\<lparr>serverErr := Some err, thread := Sent\<rparr>))
    \<and> (case gs_main s of
         GS_returned r \<Rightarrow> \<not> notified s \<and>
           (case shut s of
              Some d \<Rightarrow> d = (if 0 < timeout then Some timeout else None) \<and> r \<in> results d
            | None \<Rightarrow> thread s = Sent \<and> (\<exists>e. exited s = Some e \<and> r = (case e of None \<Rightarrow> None
                 | Some e' \<Rightarrow> if errors_is e' ErrServerClosed then None else Some e')))
       | Selecting \<Rightarrow> thread s = Sent \<or> quit s \<longrightarrow> (\<exists>t. gs_step timeout results s t \<and> gs_main t \<noteq> Selecting)
       | m \<Rightarrow> \<exists>t. gs_step timeout results s t \<and> gs_main t \<noteq> m)"
proof -
  have inv: "gs_inv timeout results s" by (rule graceful.reachable_inv [OF assms(1)])
  have send: "thread s = Sending err \<longrightarrow>
      gs_step timeout results s (s\<lparr>serverErr := Some err, thread := Sent\<rparr>)"
    using inv by (auto simp: gs_inv_def intro: server_send)
  show ?thesis
  proof (cases "gs_main s")
    case Notifying
    with send notifying_moves show ?thesis by simp
  next
    case Selecting
    with send selecting_moves [OF inv] show ?thesis by simp
  next
    case (Shutting_down d)
    with send shutting_down_moves assms(2) show ?thesis by simp
  next
    case (GS_returned r)
    with inv send show ?thesis by (auto simp: gs_inv_def shutdown_deadline_def exit_result_cases split: option.splits)
  qed
qed

definition after_signal :: gs_sys where
  "after_signal = \<lparr>thread = Sending (Some ErrServerClosed), serverErr = None, quit = False, notified = False,
     gs_main = GS_returned None, exited = Some (Some ErrServerClosed), shut = Some (Some 5)\<rparr>"

lemma after_signal_reachable: "reachable gs_init (gs_step 5 (\<lambda>_. {None})) after_signal"
proof -
  let ?R = "gs_step 5 (\<lambda>_. {None})"
  let ?s0 = "\<lparr>thread = Listening, serverErr = None, quit = False, notified = False, gs_main = Notifying,
    exited = None, shut = None\<rparr>"
  let ?s1 = "?s0\<lparr>notified := True, gs_main := Selecting\<rparr>"
  let ?s2 = "?s1\<lparr>quit := True\<rparr>"
  let ?s3 = "?s2\<lparr>quit := False, gs_main := Shutting_down (shutdown_deadline 5), shut := Some (shutdown_deadline 5)\<rparr>"
  let ?s4 = "?s3\<lparr>thread := Sending (Some ErrServerClosed), exited := Some (Some ErrServerClosed)\<rparr>"
  have "reachable gs_init ?R ?s0" by (rule reachable_init) (simp add: gs_init_def)
  moreover have "?R ?s0 ?s1" by (rule notify) simp
  moreover have "?R ?s1 ?s2" by (rule signal) simp
  moreover have "?R ?s2 ?s3" by (rule select_quit) simp_all
  moreover have "?R ?s3 ?s4" by (rule server_exit) simp
  moreover have "?R ?s4 after_signal"
    using shutdown_done [of ?s4 "shutdown_deadline 5" None "\<lambda>_. {None}" 5] by (simp add: after_signal_def shutdown_deadline_def)
  ultimately show ?thesis by (meson reachable_step)
qed

theorem graceful_shutdown_no_leak_witness:
  "gs_step 5 (\<lambda>_. {None}) after_signal (after_signal\<lparr>serverErr := Some (Some ErrServerClosed), thread := Sent\<rparr>)"
  using graceful_shutdown_no_leak [OF after_signal_reachable, of "Some ErrServerClosed"]
  by (simp add: after_signal_def)

end
