(* ===== verification/Db.thy ===== *)
theory Db
  imports Prelude
begin

text \<open>
  \<open>dbkit/db.go\<close> and \<open>dbkit/migration.go\<close>. Opening a connection is a parameter; the pool of
  \<open>database/sql\<close> that is then tuned is the four numbers its setters clamp. The migration engine is a
  record of its operations over a state \<open>'m\<close>, with \<open>Up\<close>, \<open>Down\<close> and \<open>Steps\<close> allowed to panic.
\<close>

section \<open>Connections\<close>

record db_config =
  Driver :: string
  DSN :: string
  MaxOpenConns :: int
  MaxIdleConns :: int
  ConnMaxLifetime :: int
  ConnMaxIdleTime :: int

definition Db_DefaultConfig :: "string \<Rightarrow> string \<Rightarrow> db_config" where
  "Db_DefaultConfig driver dsn = \<lparr>Driver = driver, DSN = dsn, MaxOpenConns = 25, MaxIdleConns = 5,
     ConnMaxLifetime = 5 * 60 * 1000000000, ConnMaxIdleTime = 60 * 1000000000\<rparr>"

definition WithMaxOpenConns :: "int \<Rightarrow> db_config \<Rightarrow> db_config" where
  "WithMaxOpenConns n c = c\<lparr>MaxOpenConns := n\<rparr>"

definition WithMaxIdleConns :: "int \<Rightarrow> db_config \<Rightarrow> db_config" where
  "WithMaxIdleConns n c = c\<lparr>MaxIdleConns := n\<rparr>"

definition WithConnMaxLifetime :: "int \<Rightarrow> db_config \<Rightarrow> db_config" where
  "WithConnMaxLifetime d c = c\<lparr>ConnMaxLifetime := d\<rparr>"

definition WithConnMaxIdleTime :: "int \<Rightarrow> db_config \<Rightarrow> db_config" where
  "WithConnMaxIdleTime d c = c\<lparr>ConnMaxIdleTime := d\<rparr>"

text \<open>
  The pool settings of \<open>database/sql\<close>: a limit of 0 open connections means none; the idle count 0
  stands for the default of 2 and -1 for no idle connection.
\<close>

record sql_pool =
  pool_maxOpen :: int
  pool_maxIdle :: int
  pool_maxLifetime :: int
  pool_maxIdleTime :: int

definition idle_limit :: "sql_pool \<Rightarrow> int" where
  "idle_limit p = (if pool_maxIdle p = 0 then 2 else if pool_maxIdle p < 0 then 0 else pool_maxIdle p)"

definition SetMaxIdleConns :: "int \<Rightarrow> sql_pool \<Rightarrow> sql_pool" where
  "SetMaxIdleConns n p =
     (let p = p\<lparr>pool_maxIdle := (if n > 0 then n else - 1)\<rparr>
      in if pool_maxOpen p > 0 \<and> idle_limit p > pool_maxOpen p then p\<lparr>pool_maxIdle := pool_maxOpen p\<rparr> else p)"

definition SetMaxOpenConns :: "int \<Rightarrow> sql_pool \<Rightarrow> sql_pool" where
  "SetMaxOpenConns n p =
     (let p = p\<lparr>pool_maxOpen := (if n < 0 then 0 else n)\<rparr>
      in if pool_maxOpen p > 0 \<and> idle_limit p > pool_maxOpen p then SetMaxIdleConns n p else p)"

definition SetConnMaxLifetime :: "int \<Rightarrow> sql_pool \<Rightarrow> sql_pool" where
  "SetConnMaxLifetime d p = p\<lparr>pool_maxLifetime := (if d < 0 then 0 else d)\<rparr>"

definition SetConnMaxIdleTime :: "int \<Rightarrow> sql_pool \<Rightarrow> sql_pool" where
  "SetConnMaxIdleTime d p = p\<lparr>pool_maxIdleTime := (if d < 0 then 0 else d)\<rparr>"

definition Connect ::
    "(context_t \<Rightarrow> string \<Rightarrow> string \<Rightarrow> gerror + sql_pool) \<Rightarrow> context_t \<Rightarrow> string \<Rightarrow> string
     \<Rightarrow> (db_config \<Rightarrow> db_config) option list \<Rightarrow> gerror + sql_pool" where
  "Connect ConnectContext ctx driver dsn opts =
     (if driver = [] then Inl (Sentinel ''dbkit: driver is required'')
      else if dsn = [] then Inl (Sentinel ''dbkit: dsn is required'')
      else (let cfg = apply_options opts (Db_DefaultConfig driver dsn)
            in case ConnectContext ctx (Driver cfg) (DSN cfg) of
                 Inl err \<Rightarrow> Inl err
               | Inr db \<Rightarrow>
                   (let db = SetMaxOpenConns (MaxOpenConns cfg) db;
                        db = SetMaxIdleConns (MaxIdleConns cfg) db;
                        db = SetConnMaxLifetime (ConnMaxLifetime cfg) db
                    in Inr (SetConnMaxIdleTime (ConnMaxIdleTime cfg) db))))"

definition MustConnect ::
    "(gerror \<Rightarrow> string) \<Rightarrow> (context_t \<Rightarrow> string \<Rightarrow> string \<Rightarrow> gerror + sql_pool) \<Rightarrow> context_t \<Rightarrow> string
     \<Rightarrow> string \<Rightarrow> (db_config \<Rightarrow> db_config) option list \<Rightarrow> sql_pool outcome" where
  "MustConnect err_text ConnectContext ctx driver dsn opts =
     (case Connect ConnectContext ctx driver dsn opts of
        Inl err \<Rightarrow> Panics (PMsg (''dbkit: '' @ err_text err))
      | Inr db \<Rightarrow> Returns db)"

text \<open>The ping of the database is the driver's.\<close>

definition HealthCheck :: "(context_t \<Rightarrow> gerror option) \<Rightarrow> context_t \<Rightarrow> gerror option" where
  "HealthCheck PingContext ctx = PingContext ctx"

section \<open>Migrations\<close>

text \<open>The configuration record of a migration, which nothing in the package reads.\<close>

record MigrationConfig =
  SourceURL :: string
  DatabaseName :: string


record 'm migrator =
  NewWithDatabaseInstance :: "string \<Rightarrow> string \<Rightarrow> gerror + 'm"
  Up :: "'m \<Rightarrow> gerror option outcome \<times> 'm"
  Down :: "'m \<Rightarrow> gerror option outcome \<times> 'm"
  Steps :: "int \<Rightarrow> 'm \<Rightarrow> gerror option outcome \<times> 'm"
  Version :: "'m \<Rightarrow> gerror + (nat \<times> bool)"
  Close :: "'m \<Rightarrow> (gerror option \<times> gerror option) \<times> 'm"

definition ErrNoChange :: gerror where
  "ErrNoChange = Sentinel ''no change''"

definition ErrNilVersion :: gerror where
  "ErrNilVersion = Sentinel ''no migration''"

text \<open>The deferred function all three operations share: close, and report its errors if there is none.\<close>

definition close_deferred :: "'m migrator \<Rightarrow> gerror option \<Rightarrow> 'm \<Rightarrow> gerror option \<times> 'm" where
  "close_deferred lib err m =
     (let ((sourceErr, dbErr), m) = Close lib m;
          err = (if sourceErr \<noteq> None \<and> err = None then sourceErr else err);
          err = (if dbErr \<noteq> None \<and> err = None then dbErr else err)
      in (err, m))"

text \<open>
  One engine call in front of that function: its error is returned unless it says that nothing changed,
  and its panic goes on after the deferred function has run.
\<close>

definition engine_call ::
    "'m migrator \<Rightarrow> ('m \<Rightarrow> gerror option outcome \<times> 'm) \<Rightarrow> 'm \<Rightarrow> gerror option outcome \<times> 'm" where
  "engine_call lib op m =
     (case op m of
        (Panics v, m) \<Rightarrow> (Panics v, snd (close_deferred lib None m))
      | (Returns opErr, m) \<Rightarrow>
          (let err = (if opErr \<noteq> None \<and> \<not> err_is opErr ErrNoChange then opErr else None);
               (err, m) = close_deferred lib err m
           in (Returns err, m)))"

definition RunMigrations ::
    "'m migrator \<Rightarrow> string \<Rightarrow> string \<Rightarrow> gerror option outcome \<times> 'm option" where
  "RunMigrations lib driverName sourceURL =
     (case NewWithDatabaseInstance lib sourceURL driverName of
        Inl err \<Rightarrow> (Returns (Some err), None)
      | Inr m \<Rightarrow> (let (out, m) = engine_call lib (Up lib) m in (out, Some m)))"

definition RollbackMigrations ::
    "'m migrator \<Rightarrow> string \<Rightarrow> string \<Rightarrow> int \<Rightarrow> gerror option outcome \<times> 'm option" where
  "RollbackMigrations lib driverName sourceURL steps =
     (case NewWithDatabaseInstance lib sourceURL driverName of
        Inl err \<Rightarrow> (Returns (Some err), None)
      | Inr m \<Rightarrow>
          (let (out, m) =
             (if steps \<le> 0 then engine_call lib (Down lib) m else engine_call lib (Steps lib (- steps)) m)
           in (out, Some m)))"

record MigrationVersion =
  mv_Version :: nat
  mv_Dirty :: bool

definition GetMigrationVersion ::
    "'m migrator \<Rightarrow> string \<Rightarrow> string \<Rightarrow> (MigrationVersion \<times> gerror option) \<times> 'm option" where
  "GetMigrationVersion lib driverName sourceURL =
     (case NewWithDatabaseInstance lib sourceURL driverName of
        Inl err \<Rightarrow> ((\<lparr>mv_Version = 0, mv_Dirty = False\<rparr>, Some err), None)
      | Inr m \<Rightarrow>
          (let (mv, err) = (case Version lib m of
                 Inl verErr \<Rightarrow>
                   if errors_is verErr ErrNilVersion then (\<lparr>mv_Version = 0, mv_Dirty = False\<rparr>, None)
                   else (\<lparr>mv_Version = 0, mv_Dirty = False\<rparr>, Some verErr)
               | Inr (version, dirty) \<Rightarrow> (\<lparr>mv_Version = version, mv_Dirty = dirty\<rparr>, None));
               (err, m) = close_deferred lib err m
           in ((mv, err), Some m)))"

section \<open>Properties\<close>

lemma close_deferred_eq:
  "close_deferred lib err m =
     (first_error [err, fst (fst (Close lib m)), snd (fst (Close lib m))], snd (Close lib m))"
  by (cases err; cases "fst (fst (Close lib m))"; cases "snd (fst (Close lib m))")
     (auto simp: close_deferred_def Let_def split: prod.split)

text \<open>The bounds a tuned pool has, whatever it had before.\<close>

lemma tuned_pool:
  "let p' = SetMaxIdleConns i (SetMaxOpenConns n p)
   in pool_maxOpen p' = max 0 n \<and> idle_limit p' = (if 0 < n then min n (max 0 i) else max 0 i)
      \<and> pool_maxLifetime p' = pool_maxLifetime p \<and> pool_maxIdleTime p' = pool_maxIdleTime p"
  by (auto simp: SetMaxIdleConns_def SetMaxOpenConns_def idle_limit_def Let_def)

lemma lifetimes_frame [simp]:
  "pool_maxOpen (SetConnMaxLifetime d p) = pool_maxOpen p" "idle_limit (SetConnMaxLifetime d p) = idle_limit p"
  "pool_maxLifetime (SetConnMaxLifetime d p) = max 0 d"
  "pool_maxOpen (SetConnMaxIdleTime d p) = pool_maxOpen p" "idle_limit (SetConnMaxIdleTime d p) = idle_limit p"
  "pool_maxLifetime (SetConnMaxIdleTime d p) = pool_maxLifetime p" "pool_maxIdleTime (SetConnMaxIdleTime d p) = max 0 d"
  by (simp_all add: SetConnMaxLifetime_def SetConnMaxIdleTime_def idle_limit_def)

text \<open>
  A connection is never handed out untuned. If \<open>Connect\<close> succeeds, the pool has at most the
  configured number of open connections, at most that many idle ones and never more idle than open,
  negative settings count as zero, and none of it depends on the state the pool was opened in.
\<close>

theorem connect_tunes_pool:
  assumes "Connect ConnectContext ctx driver dsn opts = Inr db"
  shows "let cfg = apply_options opts (Db_DefaultConfig driver dsn)
    in pool_maxOpen db = max 0 (MaxOpenConns cfg)
    \<and> idle_limit db = (if 0 < MaxOpenConns cfg then min (MaxOpenConns cfg) (max 0 (MaxIdleConns cfg))
                       else max 0 (MaxIdleConns cfg))
    \<and> pool_maxLifetime db = max 0 (ConnMaxLifetime cfg) \<and> pool_maxIdleTime db = max 0 (ConnMaxIdleTime cfg)
    \<and> driver \<noteq> [] \<and> dsn \<noteq> []"
proof -
  let ?cfg = "apply_options opts (Db_DefaultConfig driver dsn)"
  from assms obtain p where
    "db = SetConnMaxIdleTime (ConnMaxIdleTime ?cfg) (SetConnMaxLifetime (ConnMaxLifetime ?cfg)
        (SetMaxIdleConns (MaxIdleConns ?cfg) (SetMaxOpenConns (MaxOpenConns ?cfg) p)))" "driver \<noteq> []" "dsn \<noteq> []"
    by (auto simp: Connect_def Let_def split: if_splits sum.splits)
  with tuned_pool [of "MaxIdleConns ?cfg" "MaxOpenConns ?cfg" p] show ?thesis
    by (simp add: Let_def)
qed

theorem connect_tunes_pool_witness:
  "\<exists>db. Connect (\<lambda>ctx dr ds. Inr \<lparr>pool_maxOpen = 0, pool_maxIdle = 0, pool_maxLifetime = 0, pool_maxIdleTime = 0\<rparr>)
      background ''pgx'' ''postgres://'' [Some (WithMaxOpenConns 3), None] = Inr db \<and> idle_limit db = 3"
proof -
  let ?c = "Connect (\<lambda>ctx dr ds. Inr \<lparr>pool_maxOpen = 0, pool_maxIdle = 0, pool_maxLifetime = 0, pool_maxIdleTime = 0\<rparr>)
      background ''pgx'' ''postgres://'' [Some (WithMaxOpenConns 3), None]"
  obtain db where db: "?c = Inr db" by (simp add: Connect_def Let_def)
  from connect_tunes_pool [OF db] db show ?thesis
    by (simp add: WithMaxOpenConns_def Db_DefaultConfig_def)
qed

text \<open>What a migration that makes one engine call returns, and the engine it leaves.\<close>

definition migration_spec ::
    "'m migrator \<Rightarrow> ('m \<Rightarrow> gerror option outcome \<times> 'm) \<Rightarrow> 'm \<Rightarrow> gerror option outcome \<times> 'm option" where
  "migration_spec lib op m =
     (let (out, m1) = op m; ((sourceErr, dbErr), m2) = Close lib m1
      in (case out of
            Panics v \<Rightarrow> Panics v
          | Returns e \<Rightarrow> Returns (first_error [if err_is e ErrNoChange then None else e, sourceErr, dbErr]),
          Some m2))"

lemma engine_call_spec: "migration_spec lib op m = apsnd Some (engine_call lib op m)"
proof -
  have no_change: "(if e \<noteq> None \<and> \<not> err_is e ErrNoChange then e else None) = (if err_is e ErrNoChange then None else e)"
    for e by auto
  show ?thesis
    by (cases "op m"; cases "fst (op m)")
       (auto simp: migration_spec_def engine_call_def close_deferred_eq no_change Let_def split: prod.split)
qed

text \<open>
  A migration always closes its engine and reports the most telling error. Once the engine was
  created, it is closed exactly once and last, also when the engine panics; the error returned is the
  engine's own, unless it only says that nothing had to change, then the source's, then the database's;
  rolling back a non-positive number of steps undoes everything and a positive number that many.
\<close>

theorem migration_closes_and_reports:
  assumes "NewWithDatabaseInstance lib src drv = Inr m"
  shows "RunMigrations lib drv src = migration_spec lib (Up lib) m
    \<and> RollbackMigrations lib drv src steps
      = migration_spec lib (if steps \<le> 0 then Down lib else Steps lib (- steps)) m"
  using assms
  by (simp add: RunMigrations_def RollbackMigrations_def engine_call_spec case_prod_beta apsnd_def map_prod_def)

text \<open>A migrator for the witnesses: its state counts the closes.\<close>

definition toy_migrator :: "nat migrator" where
  "toy_migrator = \<lparr>NewWithDatabaseInstance = (\<lambda>src drv. Inr 0),
     Up = (\<lambda>m. (Returns (Some (Wrapped ''up: '' ErrNoChange)), m)), Down = (\<lambda>m. (Panics (PUser 1), m)),
     Steps = (\<lambda>n m. (Returns None, m)), Version = (\<lambda>m. Inl ErrNilVersion),
     Close = (\<lambda>m. ((None, Some (Opaque 5)), m + 1))\<rparr>"

theorem migration_closes_and_reports_witness:
  "RunMigrations toy_migrator ''db'' ''file://'' = (Returns (Some (Opaque 5)), Some 1)
   \<and> RollbackMigrations toy_migrator ''db'' ''file://'' 0 = (Panics (PUser 1), Some 1)"
  using migration_closes_and_reports [of toy_migrator "''file://''" "''db''" 0 0]
  by (simp add: toy_migrator_def migration_spec_def ErrNoChange_def)

text \<open>
  A database without migrations is version 0 and clean, not an error: \<open>GetMigrationVersion\<close> returns
  an error only if the version cannot be read for another reason or closing fails, and the version it
  returns is the stored one whenever there is one.
\<close>

theorem migration_version_reads:
  assumes "NewWithDatabaseInstance lib src drv = Inr m"
  shows "GetMigrationVersion lib drv src =
    ((case Version lib m of Inr (v, d) \<Rightarrow> \<lparr>mv_Version = v, mv_Dirty = d\<rparr>
        | Inl e \<Rightarrow> \<lparr>mv_Version = 0, mv_Dirty = False\<rparr>,
      first_error [case Version lib m of Inr vd \<Rightarrow> None
          | Inl e \<Rightarrow> if errors_is e ErrNilVersion then None else Some e,
        fst (fst (Close lib m)), snd (fst (Close lib m))]), Some (snd (Close lib m)))"
  using assms
  by (cases "Version lib m") (auto simp: GetMigrationVersion_def close_deferred_eq Let_def)

theorem migration_version_reads_witness:
  "GetMigrationVersion toy_migrator ''db'' ''file://''
   = ((\<lparr>mv_Version = 0, mv_Dirty = False\<rparr>, Some (Opaque 5)), Some 1)"
  using migration_version_reads [of toy_migrator "''file://''" "''db''" 0]
  by (simp add: toy_migrator_def ErrNilVersion_def)

end
