(* ===== verification/Telemetry.thy ===== *)
theory Telemetry
  imports Prelude
begin

text \<open>
  \<open>otelkit/otelkit.go\<close> and \<open>logkit/logkit.go\<close>: the bootstrap of tracing and metrics, with the exporters
  and the resource merge as parameters and the changes to otel's globals as a trace of events, and the
  construction of the logger, which a JSON handler of \<open>slog\<close> makes of a level and a writer.
\<close>

section \<open>OpenTelemetry\<close>

datatype ('te, 'me, 'res) otel_event =
    SetTextMapPropagator
  | SetTracerProvider 'te 'res
  | SetMeterProvider 'me 'res
  | ShutdownTracer
  | ShutdownMeter

text \<open>A successful \<open>InitSDK\<close> returns the shutdown function of its two providers.\<close>

definition InitSDK ::
    "(string \<Rightarrow> gerror + 'res) \<Rightarrow> (context_t \<Rightarrow> gerror + 'te) \<Rightarrow> (gerror + 'me) \<Rightarrow> context_t \<Rightarrow> int \<Rightarrow> string
     \<Rightarrow> (gerror + unit) \<times> ('te, 'me, 'res) otel_event list" where
  "InitSDK resourceMerge newTraceExporter newMetricExporter ctx now serviceName =
     (case ctx_err ctx now of
        Some err \<Rightarrow> (Inl err, [])
      | None \<Rightarrow>
          (case resourceMerge serviceName of
             Inl err \<Rightarrow> (Inl err, [])
           | Inr res \<Rightarrow>
               (case newTraceExporter ctx of
                  Inl err \<Rightarrow> (Inl err, [SetTextMapPropagator])
                | Inr traceExporter \<Rightarrow>
                    (case newMetricExporter of
                       Inl err \<Rightarrow>
                         (Inl err, [SetTextMapPropagator, SetTracerProvider traceExporter res, ShutdownTracer])
                     | Inr metricExporter \<Rightarrow>
                         (Inr (), [SetTextMapPropagator, SetTracerProvider traceExporter res,
                            SetMeterProvider metricExporter res])))))"

text \<open>The returned function: both providers are shut down, in order, whatever the first returns.\<close>

definition sdk_shutdown ::
    "gerror option \<Rightarrow> gerror option \<Rightarrow> gerror option \<times> ('te, 'me, 'res) otel_event list" where
  "sdk_shutdown tpErr mpErr = (errors_join [tpErr, mpErr], [ShutdownTracer, ShutdownMeter])"

text \<open>The providers an event trace leaves running.\<close>

fun running :: "('te, 'me, 'res) otel_event list \<Rightarrow> bool \<times> bool \<Rightarrow> bool \<times> bool" where
  "running [] (t, m) = (t, m)"
| "running (SetTextMapPropagator # es) (t, m) = running es (t, m)"
| "running (SetTracerProvider te res # es) (t, m) = running es (True, m)"
| "running (SetMeterProvider me res # es) (t, m) = running es (t, True)"
| "running (ShutdownTracer # es) (t, m) = running es (False, m)"
| "running (ShutdownMeter # es) (t, m) = running es (t, False)"

lemma running_append: "running (xs @ ys) p = running ys (running xs p)"
  by (induction xs p rule: running.induct) auto

text \<open>
  The SDK's providers do not leak. If \<open>InitSDK\<close> fails nothing it started is left running; if it
  succeeds both providers run, both carry the merged resource, and the function it returns stops both,
  also when the first fails to stop, and reports each failure.
\<close>

theorem init_sdk_no_leak:
  "case InitSDK merge newTrace newMetric ctx now name of
     (Inl e, evs) \<Rightarrow> running evs (False, False) = (False, False)
   | (Inr u, evs) \<Rightarrow> running evs (False, False) = (True, True)
       \<and> (\<exists>te me res. merge name = Inr res \<and> evs = [SetTextMapPropagator, SetTracerProvider te res, SetMeterProvider me res])
       \<and> running (evs @ snd (sdk_shutdown tpErr mpErr)) (False, False) = (False, False)
       \<and> (fst (sdk_shutdown tpErr mpErr) = None \<longleftrightarrow> tpErr = None \<and> mpErr = None)
       \<and> (\<forall>e. tpErr = Some e \<or> mpErr = Some e \<longrightarrow> err_is (fst (sdk_shutdown tpErr mpErr)) e)"
  by (cases tpErr; cases mpErr)
     (auto simp: InitSDK_def sdk_shutdown_def split: option.split sum.split)

theorem init_sdk_no_leak_witness:
  "running (snd (InitSDK Inr (\<lambda>c. Inr (7::nat)) (Inl (Opaque 1) :: gerror + nat) background 0 ''svc''))
     (False, False) = (False, False)"
  using init_sdk_no_leak [where merge = Inr and newTrace = "\<lambda>c. Inr (7::nat)"
    and newMetric = "Inl (Opaque 1) :: gerror + nat" and ctx = background and now = 0 and name = "''svc''"]
  by (simp add: InitSDK_def)

section \<open>Logging\<close>

record 'w log_config =
  Level :: int
  Writer :: 'w

definition WithLevel :: "int \<Rightarrow> 'w log_config \<Rightarrow> 'w log_config" where
  "WithLevel l c = c\<lparr>Level := l\<rparr>"

definition WithWriter :: "'w \<Rightarrow> 'w log_config \<Rightarrow> 'w log_config" where
  "WithWriter w c = c\<lparr>Writer := w\<rparr>"

text \<open>A logger with a JSON handler: the writer that gets a record of a level, if any does.\<close>

definition NewLogger :: "'w \<Rightarrow> ('w log_config \<Rightarrow> 'w log_config) option list \<Rightarrow> int \<Rightarrow> 'w option" where
  "NewLogger Stdout opts =
     (let config = apply_options opts \<lparr>Level = 0, Writer = Stdout\<rparr>
      in (\<lambda>l. if Level config \<le> l then Some (Writer config) else None))"

text \<open>\<open>slog.SetDefault\<close> replaces the process-wide logger.\<close>

definition Log_Initialize ::
    "'w \<Rightarrow> ('w log_config \<Rightarrow> 'w log_config) option list \<Rightarrow> (int \<Rightarrow> 'w option) \<Rightarrow> int \<Rightarrow> 'w option" where
  "Log_Initialize Stdout opts old_default = NewLogger Stdout opts"

text \<open>
  The last level and the last writer win. Whatever options come before, a logger built with a
  final level and a final writer sends a record to that writer exactly if it is at least at that
  level; without options it sends to standard output what is at least at level Info.
\<close>

theorem logger_filters:
  "NewLogger out (opts @ [Some (WithLevel l), None, Some (WithWriter w)]) = (\<lambda>k. if l \<le> k then Some w else None)
   \<and> Log_Initialize out [] old = (\<lambda>k. if 0 \<le> k then Some out else None)"
  by (auto simp: NewLogger_def Log_Initialize_def WithLevel_def WithWriter_def Let_def fun_eq_iff)

end
