(* ===== verification/Utf8.thy ===== *)
theory Utf8
  imports Main
begin

text \<open>
  What the repository uses of Go's text handling: the runes of a byte string as \<open>range\<close> yields them,
  their encoding as \<open>WriteRune\<close> writes it, and \<open>strings.TrimSpace\<close>, which decodes from both ends. A
  byte string is a list of naturals below 256, a rune a natural.
\<close>

definition RuneError :: nat where "RuneError = 0xFFFD"

definition cont :: "nat \<Rightarrow> bool" where "cont b \<longleftrightarrow> 0x80 \<le> b \<and> b \<le> 0xBF"

text \<open>The range of the second byte after a first byte of a three- or four-byte sequence.\<close>

definition second_ok :: "nat \<Rightarrow> nat \<Rightarrow> bool" where
  "second_ok b0 b1 \<longleftrightarrow>
     (if b0 = 0xE0 then 0xA0 \<le> b1 \<and> b1 \<le> 0xBF
      else if b0 = 0xED then 0x80 \<le> b1 \<and> b1 \<le> 0x9F
      else if b0 = 0xF0 then 0x90 \<le> b1 \<and> b1 \<le> 0xBF
      else if b0 = 0xF4 then 0x80 \<le> b1 \<and> b1 \<le> 0x8F
      else cont b1)"

text \<open>\<open>DecodeRune\<close>: the first rune and its width; \<open>RuneError\<close> of width 1 for an invalid start.\<close>

definition DecodeRune :: "nat list \<Rightarrow> nat \<times> nat" where
  "DecodeRune s =
     (case s of
        [] \<Rightarrow> (RuneError, 0)
      | b0 # s1 \<Rightarrow>
          if b0 < 0x80 then (b0, 1)
          else if 0xC2 \<le> b0 \<and> b0 \<le> 0xDF then
            (case s1 of
               b1 # _ \<Rightarrow> if cont b1 then ((b0 - 0xC0) * 64 + (b1 - 0x80), 2) else (RuneError, 1)
             | _ \<Rightarrow> (RuneError, 1))
          else if 0xE0 \<le> b0 \<and> b0 \<le> 0xEF then
            (case s1 of
               b1 # b2 # _ \<Rightarrow>
                 if second_ok b0 b1 \<and> cont b2
                 then ((b0 - 0xE0) * 4096 + (b1 - 0x80) * 64 + (b2 - 0x80), 3) else (RuneError, 1)
             | _ \<Rightarrow> (RuneError, 1))
          else if 0xF0 \<le> b0 \<and> b0 \<le> 0xF4 then
            (case s1 of
               b1 # b2 # b3 # _ \<Rightarrow>
                 if second_ok b0 b1 \<and> cont b2 \<and> cont b3
                 then ((b0 - 0xF0) * 262144 + (b1 - 0x80) * 4096 + (b2 - 0x80) * 64 + (b3 - 0x80), 4)
                 else (RuneError, 1)
             | _ \<Rightarrow> (RuneError, 1))
          else (RuneError, 1))"

lemma DecodeRune_width: "s \<noteq> [] \<Longrightarrow> 0 < snd (DecodeRune s) \<and> snd (DecodeRune s) \<le> length s"
  by (auto simp: DecodeRune_def split: list.splits)

text \<open>The runes a \<open>range\<close> loop over the string sees.\<close>

function runes :: "nat list \<Rightarrow> nat list" where
  "runes s = (if s = [] then [] else fst (DecodeRune s) # runes (drop (snd (DecodeRune s)) s))"
  by auto
termination
  by (relation "measure length") (use DecodeRune_width in \<open>auto simp: diff_less\<close>)

declare runes.simps [simp del]

definition surrogate :: "nat \<Rightarrow> bool" where "surrogate r \<longleftrightarrow> 0xD800 \<le> r \<and> r \<le> 0xDFFF"

definition valid_rune :: "nat \<Rightarrow> bool" where "valid_rune r \<longleftrightarrow> r \<le> 0x10FFFF \<and> \<not> surrogate r"

text \<open>\<open>WriteRune\<close>.\<close>

definition EncodeRune :: "nat \<Rightarrow> nat list" where
  "EncodeRune r =
     (let r = (if r > 0x10FFFF \<or> surrogate r then RuneError else r)
      in if r \<le> 0x7F then [r]
         else if r \<le> 0x7FF then [0xC0 + r div 64, 0x80 + r mod 64]
         else if r \<le> 0xFFFF then [0xE0 + r div 4096, 0x80 + r div 64 mod 64, 0x80 + r mod 64]
         else [0xF0 + r div 262144, 0x80 + r div 4096 mod 64, 0x80 + r div 64 mod 64, 0x80 + r mod 64])"

definition encode :: "nat list \<Rightarrow> nat list" where
  "encode rs = concat (map EncodeRune rs)"

lemma encode_simps [simp]: "encode [] = []" "encode (r # rs) = EncodeRune r @ encode rs"
  "encode (xs @ ys) = encode xs @ encode ys"
  by (simp_all add: encode_def)

section \<open>Round trip\<close>

lemma cont_low [simp]: "cont (0x80 + n mod 64)" "0x80 + n mod 64 - 0x80 = (n::nat) mod 64"
proof -
  have "n mod 64 < 64" by simp
  then show "cont (0x80 + n mod 64)" unfolding cont_def by linarith
qed simp

lemma split3: "(r::nat) div 4096 * 4096 + r div 64 mod 64 * 64 + r mod 64 = r"
proof -
  have "r div 64 div 64 * 64 + r div 64 mod 64 = r div 64" by (rule div_mult_mod_eq)
  moreover have "r div 64 div 64 = r div 4096" by (simp add: div_mult2_eq [symmetric])
  moreover have "r div 64 * 64 + r mod 64 = r" by (rule div_mult_mod_eq)
  ultimately show ?thesis by linarith
qed

lemma split4: "(r::nat) div 262144 * 262144 + r div 4096 mod 64 * 4096 + r div 64 mod 64 * 64 + r mod 64 = r"
proof -
  have "r div 4096 div 64 * 64 + r div 4096 mod 64 = r div 4096" by (rule div_mult_mod_eq)
  moreover have "r div 4096 div 64 = r div 262144" by (simp add: div_mult2_eq [symmetric])
  ultimately show ?thesis using split3 [of r] by linarith
qed

text \<open>The second bytes the encoder writes are in the range the decoder asks for.\<close>

lemma second_ok3:
  assumes "0x7FF < r" "r \<le> 0xFFFF" "\<not> surrogate r"
  shows "second_ok (0xE0 + r div 4096) (0x80 + r div 64 mod 64)"
proof -
  have q: "r div 64 = r div 4096 * 64 + r div 64 mod 64"
    using div_mult_mod_eq [of "r div 64" 64] by (simp add: div_mult2_eq [symmetric])
  have lo: "0x20 \<le> r div 64" using assms(1) by (simp add: less_eq_div_iff_mult_less_eq)
  have le: "r div 4096 \<le> 15" using div_le_mono [OF assms(2), of 4096] by simp
  have sur: "\<not> (0x360 \<le> r div 64 \<and> r div 64 \<le> 0x37F)"
  proof
    assume "0x360 \<le> r div 64 \<and> r div 64 \<le> 0x37F"
    then have "0x360 \<le> r div 64" "r div 64 < 0x380" by simp_all
    then have "0x360 * 64 \<le> r" "r < 0x380 * 64"
      using div_mult_mod_eq [of r 64] mod_less_divisor [of 64 r] by linarith+
    then show False using assms(3) by (simp add: surrogate_def)
  qed
  define d where "d = r div 64 mod 64"
  have "d \<le> 63" unfolding d_def using mod_less_divisor [of 64 "r div 64"] by linarith
  then show ?thesis
    using q lo le sur unfolding second_ok_def cont_def d_def [symmetric] by (auto split: if_splits)
qed

lemma second_ok4:
  assumes "0xFFFF < r" "r \<le> 0x10FFFF"
  shows "second_ok (0xF0 + r div 262144) (0x80 + r div 4096 mod 64)"
proof -
  have q: "r div 4096 = r div 262144 * 64 + r div 4096 mod 64"
    using div_mult_mod_eq [of "r div 4096" 64] by (simp add: div_mult2_eq [symmetric])
  have lo: "0x10 \<le> r div 4096" using assms(1) by (simp add: less_eq_div_iff_mult_less_eq)
  have hi: "r div 4096 \<le> 0x10F" using div_le_mono [OF assms(2), of 4096] by simp
  define d where "d = r div 4096 mod 64"
  have "d \<le> 63" unfolding d_def using mod_less_divisor [of 64 "r div 4096"] by linarith
  then show ?thesis
    using q lo hi unfolding second_ok_def cont_def d_def [symmetric] by (auto split: if_splits)
qed

lemma valid_rune_encode: "valid_rune r \<Longrightarrow> \<not> (r > 0x10FFFF \<or> surrogate r)"
  by (auto simp: valid_rune_def)

lemma decode_encode:
  assumes "valid_rune r"
  shows "DecodeRune (EncodeRune r @ rest) = (r, length (EncodeRune r))"
proof -
  have v: "r \<le> 0x10FFFF" "\<not> surrogate r" using assms by (simp_all add: valid_rune_def)
  consider "r \<le> 0x7F" | "0x7F < r" "r \<le> 0x7FF" | "0x7FF < r" "r \<le> 0xFFFF" | "0xFFFF < r" by linarith
  then show ?thesis
  proof cases
    case 1
    then show ?thesis using v by (simp add: EncodeRune_def DecodeRune_def)
  next
    case 2
    define q where "q = r div 64"
    have "q * 64 + r mod 64 = r" unfolding q_def by (rule div_mult_mod_eq)
    moreover have "r mod 64 \<le> 63" using mod_less_divisor [of 64 r] by linarith
    ultimately have "2 \<le> q" "q \<le> 0x1F" "q * 64 + r mod 64 = r" using 2 by linarith+
    then show ?thesis using 2 v
      by (simp add: EncodeRune_def DecodeRune_def q_def [symmetric])
  next
    case 3
    have "r div 4096 \<le> 0xF" using div_le_mono [OF 3(2), of 4096] by simp
    with second_ok3 [OF 3 v(2)] split3 [of r] 3 v show ?thesis
      by (simp add: EncodeRune_def DecodeRune_def)
  next
    case 4
    have "r div 262144 \<le> 4" using div_le_mono [OF v(1), of 262144] by simp
    with second_ok4 [OF 4 v(1)] split4 [of r] 4 v show ?thesis
      by (simp add: EncodeRune_def DecodeRune_def)
  qed
qed

lemma EncodeRune_length: "0 < length (EncodeRune r)"
  by (simp add: EncodeRune_def Let_def)

lemma EncodeRune_nonempty [simp]: "EncodeRune r \<noteq> []"
  using EncodeRune_length by force

lemma runes_Nil [simp]: "runes [] = []"
  by (simp add: runes.simps)

lemma runes_encode:
  "list_all valid_rune rs \<Longrightarrow> runes (encode rs) = rs"
proof (induction rs)
  case (Cons r rs)
  then have "DecodeRune (EncodeRune r @ encode rs) = (r, length (EncodeRune r))"
    by (simp add: decode_encode)
  with Cons show ?case by (subst runes.simps) simp
qed simp

lemma second_ok_bounds: "second_ok b0 b1 \<Longrightarrow> 0x80 \<le> b1 \<and> b1 \<le> 0xBF \<and> (b0 = 0xED \<longrightarrow> b1 \<le> 0x9F) \<and> (b0 = 0xF4 \<longrightarrow> b1 \<le> 0x8F)"
  by (simp add: second_ok_def cont_def split: if_splits)

lemma valid3:
  assumes "0xE0 \<le> b0" "b0 \<le> 0xEF" "second_ok b0 b1" "cont b2"
  shows "valid_rune ((b0 - 0xE0) * 4096 + (b1 - 0x80) * 64 + (b2 - 0x80))"
proof -
  define x y z where xyz: "x = b0 - 0xE0" "y = b1 - 0x80" "z = b2 - 0x80"
  have b: "x \<le> 15" "y \<le> 63" "z \<le> 63" "x = 13 \<Longrightarrow> y \<le> 31"
    using assms second_ok_bounds [OF assms(3)] by (auto simp: xyz cont_def)
  consider "x \<le> 12" | "x = 13" | "14 \<le> x" by linarith
  then have "\<not> surrogate (x * 4096 + y * 64 + z)"
    unfolding surrogate_def by cases (use b in linarith)+
  then show ?thesis using b by (simp add: valid_rune_def xyz [symmetric])
qed

lemma valid4:
  assumes "0xF0 \<le> b0" "b0 \<le> 0xF4" "second_ok b0 b1" "cont b2" "cont b3"
  shows "valid_rune ((b0 - 0xF0) * 262144 + (b1 - 0x80) * 4096 + (b2 - 0x80) * 64 + (b3 - 0x80))"
proof -
  define x y z u where xyz: "x = b0 - 0xF0" "y = b1 - 0x80" "z = b2 - 0x80" "u = b3 - 0x80"
  have b: "x \<le> 4" "y \<le> 63" "z \<le> 63" "u \<le> 63" "x = 4 \<Longrightarrow> y \<le> 15"
    using assms second_ok_bounds [OF assms(3)] by (auto simp: xyz cont_def)
  have lo: "x = 0 \<Longrightarrow> 16 \<le> y" using assms by (auto simp: xyz second_ok_def split: if_splits)
  have "x * 262144 + y * 4096 + z * 64 + u \<le> 0x10FFFF" using b by (cases "x = 4") linarith+
  moreover have "0x10000 \<le> x * 262144 + y * 4096 + z * 64 + u" using lo by (cases "x = 0") linarith+
  ultimately show ?thesis by (simp add: valid_rune_def surrogate_def xyz [symmetric])
qed

lemma valid2:
  assumes "0xC2 \<le> b0" "b0 \<le> 0xDF" "cont b1"
  shows "valid_rune ((b0 - 0xC0) * 64 + (b1 - 0x80))"
proof -
  have "b0 - 0xC0 \<le> 31" "b1 - 0x80 \<le> 63" using assms unfolding cont_def by linarith+
  then have "(b0 - 0xC0) * 64 + (b1 - 0x80) \<le> 0x7FF" by linarith
  then show ?thesis unfolding valid_rune_def surrogate_def by linarith
qed

lemma DecodeRune_valid: "valid_rune (fst (DecodeRune s))"
proof -
  have [simp]: "valid_rune RuneError" by (simp add: RuneError_def valid_rune_def surrogate_def)
  have "b < 0x80 \<Longrightarrow> valid_rune b" for b by (simp add: valid_rune_def surrogate_def)
  then show ?thesis
    unfolding DecodeRune_def by (auto simp: valid2 valid3 valid4 simp del: One_nat_def split: list.split)
qed

lemma runes_valid: "list_all valid_rune (runes s)"
proof (induction s rule: runes.induct)
  case (1 s)
  then show ?case by (subst runes.simps) (simp add: DecodeRune_valid)
qed

section \<open>Trimming\<close>

definition IsSpace :: "nat \<Rightarrow> bool" where
  "IsSpace r \<longleftrightarrow> r \<in> {0x09, 0x0A, 0x0B, 0x0C, 0x0D, 0x20, 0x85, 0xA0, 0x1680, 0x2028, 0x2029, 0x202F, 0x205F, 0x3000}
     \<or> (0x2000 \<le> r \<and> r \<le> 0x200A)"

definition IsControl :: "nat \<Rightarrow> bool" where
  "IsControl r \<longleftrightarrow> r \<le> 0x1F \<or> 0x7F \<le> r \<and> r \<le> 0x9F"

text \<open>\<open>DecodeLastRune\<close>: step back over at most three continuation bytes and decode from there.\<close>

definition DecodeLastRune :: "nat list \<Rightarrow> nat \<times> nat" where
  "DecodeLastRune s =
     (if s = [] then (RuneError, 0)
      else if last s < 0x80 then (last s, 1)
      else (let n = length s; lim = n - 4;
                start = (case find (\<lambda>k. \<not> cont (s ! k)) (rev [lim..<n - 1]) of
                  Some k \<Rightarrow> k | None \<Rightarrow> lim - 1);
                (r, size) = DecodeRune (drop start s)
            in if start + size \<noteq> n then (RuneError, 1) else (r, size)))"

lemma DecodeLastRune_width: "s \<noteq> [] \<Longrightarrow> 0 < snd (DecodeLastRune s) \<and> snd (DecodeLastRune s) \<le> length s"
proof (cases "s \<noteq> [] \<and> \<not> last s < 0x80")
  case True
  let ?start = "case find (\<lambda>k. \<not> cont (s ! k)) (rev [length s - 4..<length s - 1]) of
    Some k \<Rightarrow> k | None \<Rightarrow> length s - 4 - 1"
  have "k < length s" if "find P (rev [length s - 4..<length s - 1]) = Some k" for k P
    using that by (force simp: find_Some_iff rev_nth)
  with True have "?start < length s" by (auto split: option.split)
  then have "drop ?start s \<noteq> []" by simp
  from DecodeRune_width [OF this] True show ?thesis
    by (auto simp: DecodeLastRune_def Let_def neq_Nil_conv split: prod.split)
qed (auto simp: DecodeLastRune_def neq_Nil_conv)

lemma DecodeLastRune_shorter: "s \<noteq> [] \<Longrightarrow> length s - snd (DecodeLastRune s) < length s"
  using DecodeLastRune_width [of s] by (simp add: diff_less)

function trim_left :: "nat list \<Rightarrow> nat list" where
  "trim_left s = (if s = [] then []
     else if IsSpace (fst (DecodeRune s)) then trim_left (drop (snd (DecodeRune s)) s) else s)"
  by auto
termination
  by (relation "measure length") (use DecodeRune_width in \<open>auto simp: diff_less\<close>)

declare trim_left.simps [simp del]

text \<open>The index of the last rune that is not a space.\<close>

function last_nonspace :: "nat list \<Rightarrow> nat option" where
  "last_nonspace s = (if s = [] then None
     else if IsSpace (fst (DecodeLastRune s)) then last_nonspace (take (length s - snd (DecodeLastRune s)) s)
     else Some (length s - snd (DecodeLastRune s)))"
  by auto
termination
  by (relation "measure length") (use DecodeLastRune_shorter in auto)

declare last_nonspace.simps [simp del]

definition trim_right :: "nat list \<Rightarrow> nat list" where
  "trim_right s = (case last_nonspace s of
       None \<Rightarrow> []
     | Some i \<Rightarrow> if s ! i \<ge> 0x80 then take (i + snd (DecodeRune (drop i s))) s else take (i + 1) s)"

definition TrimSpace :: "nat list \<Rightarrow> nat list" where
  "TrimSpace s = trim_right (trim_left s)"

text \<open>On well-formed text it trims runes.\<close>

lemma trim_left_encode:
  "list_all valid_rune rs \<Longrightarrow> trim_left (encode rs) = encode (dropWhile IsSpace rs)"
proof (induction rs)
  case (Cons r rs)
  then have "DecodeRune (EncodeRune r @ encode rs) = (r, length (EncodeRune r))"
    by (simp add: decode_encode)
  with Cons show ?case by (subst trim_left.simps) simp
qed (simp add: trim_left.simps)

text \<open>The shape of an encoded rune: a first byte, then one to three continuation bytes.\<close>

lemma cont_mod: "cont (0x80 + n mod 64)"
  by simp

lemma EncodeRune_shape:
  assumes "valid_rune r"
  shows "(EncodeRune r = [r] \<and> r < 0x80)
    \<or> (\<exists>b0 cs. EncodeRune r = b0 # cs \<and> 0x80 \<le> b0 \<and> \<not> cont b0 \<and> cs \<noteq> [] \<and> length cs \<le> 3 \<and> list_all cont cs)"
proof (cases "r \<le> 0x7F")
  case True
  then show ?thesis using assms by (simp add: EncodeRune_def valid_rune_def)
next
  case False
  have nc: "\<not> cont (0xC0 + k)" "\<not> cont (0xE0 + k)" "\<not> cont (0xF0 + k)" for k by (simp_all add: cont_def)
  from False assms show ?thesis
    by (simp add: EncodeRune_def valid_rune_def Let_def nc cont_mod)
qed

lemma find_rev_first:
  assumes "list_all (\<lambda>k. \<not> P k) ys" "P k"
  shows "find P (rev (xs @ k # ys)) = Some k"
proof -
  have "find P (rev ys @ zs) = find P zs" for zs
    using assms(1) by (induction ys arbitrary: zs) auto
  with assms(2) show ?thesis by simp
qed

lemma decode_last_encode:
  assumes "valid_rune r"
  shows "DecodeLastRune (xs @ EncodeRune r) = (r, length (EncodeRune r))"
  using EncodeRune_shape [OF assms]
proof
  assume "EncodeRune r = [r] \<and> r < 0x80"
  then show ?thesis by (simp add: DecodeLastRune_def)
next
  assume "\<exists>b0 cs. EncodeRune r = b0 # cs \<and> 0x80 \<le> b0 \<and> \<not> cont b0 \<and> cs \<noteq> [] \<and> length cs \<le> 3 \<and> list_all cont cs"
  then obtain b0 cs where e: "EncodeRune r = b0 # cs" "\<not> cont b0" "cs \<noteq> []" "length cs \<le> 3" "list_all cont cs"
    by blast
  let ?s = "xs @ b0 # cs" and ?k = "length xs"
  have "cont (last cs)" using e(3,5) by (auto simp: list_all_iff)
  then have last: "\<not> last ?s < 0x80" using e(3) by (simp add: cont_def)
  have up: "[length ?s - 4..<length ?s - 1] = [length ?s - 4..<?k] @ ?k # [Suc ?k..<length ?s - 1]"
    using e upt_add_eq_append [of "length ?s - 4" ?k "length cs"] by (simp add: upt_conv_Cons)
  have conts: "list_all (\<lambda>j. \<not> \<not> cont (?s ! j)) [Suc ?k..<length ?s - 1]"
    unfolding list_all_iff
  proof
    fix j
    assume "j \<in> set [Suc ?k..<length ?s - 1]"
    then have j: "Suc ?k \<le> j" "j - Suc ?k < length cs" by auto
    define m where "m = j - Suc ?k"
    have "j = Suc (?k + m)" using j by (simp add: m_def)
    then have "?s ! j = cs ! m" by (simp add: nth_append)
    moreover have "cont (cs ! m)" using e(5) j(2) by (simp add: list_all_length m_def)
    ultimately show "\<not> \<not> cont (?s ! j)" by simp
  qed
  have "find (\<lambda>k. \<not> cont (?s ! k)) (rev [length ?s - 4..<length ?s - 1]) = Some ?k"
    unfolding up by (rule find_rev_first [OF conts]) (simp add: e(2))
  moreover have "DecodeRune (b0 # cs) = (r, length (b0 # cs))"
    using decode_encode [OF assms, of "[]"] e(1) by simp
  ultimately show ?thesis
    using last unfolding e(1) DecodeLastRune_def by (simp add: Let_def)
qed

lemma IsSpace_valid: "IsSpace r \<Longrightarrow> valid_rune r"
  by (auto simp: IsSpace_def valid_rune_def surrogate_def)

lemma last_nonspace_encode:
  "list_all valid_rune rs \<Longrightarrow> last_nonspace (encode rs) =
     (if rev (dropWhile IsSpace (rev rs)) = [] then None
      else Some (length (encode (butlast (rev (dropWhile IsSpace (rev rs)))))))"
proof (induction rs rule: rev_induct)
  case (snoc r rs)
  then have d: "DecodeLastRune (encode rs @ EncodeRune r) = (r, length (EncodeRune r))"
    by (simp add: decode_last_encode)
  show ?case
  proof (cases "IsSpace r")
    case True
    with snoc d show ?thesis by (subst last_nonspace.simps) simp
  next
    case False
    with d show ?thesis by (subst last_nonspace.simps) (simp add: butlast_append)
  qed
qed (simp add: last_nonspace.simps)

lemma trim_right_encode:
  assumes "list_all valid_rune rs"
  shows "trim_right (encode rs) = encode (rev (dropWhile IsSpace (rev rs)))"
proof (cases "dropWhile IsSpace (rev rs)")
  case Nil
  show ?thesis using last_nonspace_encode [OF assms] unfolding trim_right_def Nil by simp
next
  case (Cons r ts)
  have split: "rs = rev ts @ [r] @ rev (takeWhile IsSpace (rev rs))"
    using takeWhile_dropWhile_id [of IsSpace "rev rs"] Cons
    by (metis append.assoc append_Cons append_Nil rev.simps(2) rev_append rev_rev_ident)
  let ?sp = "rev (takeWhile IsSpace (rev rs))" and ?i = "length (encode (rev ts))"
  have r: "valid_rune r" using assms split by (metis append_Cons list.pred_inject(2) list_all_append)
  have enc: "encode rs = encode (rev ts) @ EncodeRune r @ encode ?sp"
    by (subst split) (simp add: encode_def)
  have i: "last_nonspace (encode rs) = Some ?i"
    using last_nonspace_encode [OF assms] unfolding Cons by (simp add: butlast_append)
  have "encode rs ! ?i = hd (EncodeRune r)"
    by (simp add: enc nth_append hd_conv_nth)
  moreover have "hd (EncodeRune r) < 0x80 \<longleftrightarrow> length (EncodeRune r) = 1" "hd (EncodeRune r) < 0x80 \<longrightarrow> EncodeRune r = [r]"
    using EncodeRune_shape [OF r] by auto
  ultimately show ?thesis
    using decode_encode [OF r, of "encode ?sp"] unfolding trim_right_def i option.case Cons
    by (auto simp: enc)
qed

lemma TrimSpace_encode:
  assumes "list_all valid_rune rs"
  shows "TrimSpace (encode rs) = encode (rev (dropWhile IsSpace (rev (dropWhile IsSpace rs))))"
proof -
  have "list_all valid_rune (dropWhile IsSpace rs)"
    using assms by (auto simp: list_all_iff dest: set_dropWhileD)
  with assms show ?thesis by (simp add: TrimSpace_def trim_left_encode trim_right_encode)
qed

end
