(* ===== verification/Guard.thy ===== *)
theory Guard
  imports Prelude Utf8
begin

text \<open>
  \<open>guard/guard.go\<close>: the sanitiser over byte strings, and the translation of a validator's failures. The
  validator is a parameter: it accepts a value, or reports its failed fields, or rejects the value as
  not validatable. A field error carries the printed form of the rejected value.
\<close>

section \<open>Sanitising\<close>

text \<open>The loop over the runes of the string, writing to the builder.\<close>

fun sanitize_loop :: "nat list \<Rightarrow> nat list \<Rightarrow> nat list" where
  "sanitize_loop [] b = b"
| "sanitize_loop (r # rs) b =
     sanitize_loop rs (if \<not> IsControl r \<or> r = 0x0A \<or> r = 0x0D \<or> r = 0x09 then b @ EncodeRune r else b)"

definition SanitizeString :: "nat list \<Rightarrow> nat list" where
  "SanitizeString s = TrimSpace (sanitize_loop (runes s) [])"

text \<open>The HTML policy is bluemonday's.\<close>

definition StripHTML :: "(nat list \<Rightarrow> nat list) \<Rightarrow> nat list \<Rightarrow> nat list" where
  "StripHTML htmlPolicy_Sanitize s = htmlPolicy_Sanitize s"

section \<open>Validation\<close>

text \<open>A rule is added to the package's validator, which is shared state: the validator is returned.\<close>

definition RegisterValidation ::
    "('v \<Rightarrow> string \<Rightarrow> 'fn \<Rightarrow> gerror option \<times> 'v) \<Rightarrow> string \<Rightarrow> 'fn \<Rightarrow> 'v \<Rightarrow> gerror option \<times> 'v" where
  "RegisterValidation validator_Register tag fn validate = validator_Register validate tag fn"


record ValidationError =
  ve_Field :: string
  ve_Tag :: string
  ve_Value :: string
  ve_Message :: string

definition ValidationError_Error :: "ValidationError \<Rightarrow> string" where
  "ValidationError_Error v = ve_Message v"

definition ValidationErrors_Error :: "ValidationError list \<Rightarrow> string" where
  "ValidationErrors_Error ve = Join (map ve_Message ve) ''; ''"

record field_error =
  fe_Field :: string
  fe_Tag :: string
  fe_Param :: string
  fe_Value :: string

definition quoted :: "string \<Rightarrow> string" where
  "quoted s = [CHR 0x27] @ s @ [CHR 0x27]"

definition formatValidationError :: "field_error \<Rightarrow> string" where
  "formatValidationError fe =
     (if fe_Tag fe = ''required'' then ''field '' @ quoted (fe_Field fe) @ '' is required''
      else if fe_Tag fe = ''email'' then ''field '' @ quoted (fe_Field fe) @ '' must be a valid email address''
      else if fe_Tag fe = ''min'' then ''field '' @ quoted (fe_Field fe) @ '' must be at least '' @ fe_Param fe
      else if fe_Tag fe = ''max'' then ''field '' @ quoted (fe_Field fe) @ '' must be at most '' @ fe_Param fe
      else if fe_Tag fe = ''gte'' then
        ''field '' @ quoted (fe_Field fe) @ '' must be greater than or equal to '' @ fe_Param fe
      else if fe_Tag fe = ''lte'' then
        ''field '' @ quoted (fe_Field fe) @ '' must be less than or equal to '' @ fe_Param fe
      else if fe_Tag fe = ''url'' then ''field '' @ quoted (fe_Field fe) @ '' must be a valid URL''
      else if fe_Tag fe = ''uuid'' then ''field '' @ quoted (fe_Field fe) @ '' must be a valid UUID''
      else ''field '' @ quoted (fe_Field fe) @ '' failed validation on tag '' @ quoted (fe_Tag fe))"

datatype validator_error = FieldErrors "field_error list" | InvalidValidation gerror

datatype validate_error = Failures "ValidationError list" | Passed_on gerror

definition Validate :: "('s \<Rightarrow> validator_error option) \<Rightarrow> 's \<Rightarrow> validate_error option" where
  "Validate validate_Struct s =
     (case validate_Struct s of
        None \<Rightarrow> None
      | Some (InvalidValidation err) \<Rightarrow> Some (Passed_on err)
      | Some (FieldErrors fes) \<Rightarrow>
          Some (Failures (map (\<lambda>fe. \<lparr>ve_Field = fe_Field fe, ve_Tag = fe_Tag fe, ve_Value = fe_Value fe,
            ve_Message = formatValidationError fe\<rparr>) fes)))"

section \<open>Properties\<close>

definition kept :: "nat \<Rightarrow> bool" where
  "kept r \<longleftrightarrow> \<not> IsControl r \<or> r \<in> {0x09, 0x0A, 0x0D}"

definition trim_runes :: "nat list \<Rightarrow> nat list" where
  "trim_runes rs = rev (dropWhile IsSpace (rev (dropWhile IsSpace rs)))"

lemma sanitize_loop_eq: "sanitize_loop rs b = b @ encode (filter kept rs)"
  by (induction rs b rule: sanitize_loop.induct) (auto simp: kept_def)

lemma filter_valid: "list_all valid_rune rs \<Longrightarrow> list_all valid_rune (filter P rs)"
  by (auto simp: list_all_iff)

lemma set_trim_runes: "set (trim_runes rs) \<subseteq> set rs"
  by (auto simp: trim_runes_def dest!: set_dropWhileD)

lemma trim_valid: "list_all valid_rune rs \<Longrightarrow> list_all valid_rune (trim_runes rs)"
  using set_trim_runes by (force simp: list_all_iff)

lemma SanitizeString_runes: "SanitizeString s = encode (trim_runes (filter kept (runes s)))"
  by (simp add: SanitizeString_def sanitize_loop_eq TrimSpace_encode filter_valid runes_valid trim_runes_def)

lemma runes_SanitizeString: "runes (SanitizeString s) = trim_runes (filter kept (runes s))"
  by (simp add: SanitizeString_runes runes_encode trim_valid filter_valid runes_valid)

lemma trim_runes_ends:
  "trim_runes rs \<noteq> [] \<Longrightarrow> \<not> IsSpace (hd (trim_runes rs)) \<and> \<not> IsSpace (last (trim_runes rs))"
proof -
  assume ne: "trim_runes rs \<noteq> []"
  let ?l = "dropWhile IsSpace rs" and ?t = "dropWhile IsSpace (rev (dropWhile IsSpace rs))"
  have t: "?t \<noteq> []" using ne by (simp add: trim_runes_def)
  then have l: "?l \<noteq> []" by (metis dropWhile.simps(1) rev.simps(1))
  have "\<not> IsSpace (hd ?t)" using t by (rule hd_dropWhile)
  moreover obtain ys where "rev ?l = ys @ ?t" by (metis takeWhile_dropWhile_id)
  then have "last ?t = last (rev ?l)" by (metis last_appendR t)
  then have "last ?t = hd ?l" using l by (simp add: last_rev)
  moreover have "\<not> IsSpace (hd ?l)" using l by (rule hd_dropWhile)
  ultimately show ?thesis using t by (simp add: trim_runes_def hd_rev last_rev)
qed

lemma dropWhile_id: "xs = [] \<or> \<not> P (hd xs) \<Longrightarrow> dropWhile P xs = xs"
  by (cases xs) auto

lemma trim_runes_idem: "trim_runes (trim_runes rs) = trim_runes rs"
proof (cases "trim_runes rs = []")
  case False
  with trim_runes_ends [OF False] show ?thesis
    by (subst trim_runes_def) (simp add: dropWhile_id hd_rev)
next
  case True
  show ?thesis unfolding True by (simp add: trim_runes_def)
qed

text \<open>
  C31: what the sanitiser does to any byte string, valid UTF-8 or not: its output is the encoding of the
  input's runes without the control characters other than tab, newline and carriage return, trimmed of
  white space at both ends. The output is therefore well formed, holds no other control character, and
  neither begins nor ends with white space; and sanitising it again changes nothing.
\<close>

theorem sanitize_string_spec:
  "SanitizeString s = encode (trim_runes (filter kept (runes s)))
   \<and> encode (runes (SanitizeString s)) = SanitizeString s
   \<and> (\<forall>r \<in> set (runes (SanitizeString s)). \<not> IsControl r \<or> r \<in> {0x09, 0x0A, 0x0D})
   \<and> (SanitizeString s = [] \<or> \<not> IsSpace (hd (runes (SanitizeString s))) \<and> \<not> IsSpace (last (runes (SanitizeString s))))
   \<and> SanitizeString (SanitizeString s) = SanitizeString s"
proof (intro conjI)
  have "set (trim_runes (filter kept (runes s))) \<subseteq> set (filter kept (runes s))"
    by (rule set_trim_runes)
  then have all: "\<forall>r \<in> set (trim_runes (filter kept (runes s))). kept r" by auto
  then show "\<forall>r \<in> set (runes (SanitizeString s)). \<not> IsControl r \<or> r \<in> {0x09, 0x0A, 0x0D}"
    unfolding runes_SanitizeString kept_def by blast
  show "SanitizeString s = [] \<or> \<not> IsSpace (hd (runes (SanitizeString s))) \<and> \<not> IsSpace (last (runes (SanitizeString s)))"
    using trim_runes_ends [of "filter kept (runes s)"] unfolding runes_SanitizeString
    by (cases "trim_runes (filter kept (runes s)) = []") (simp_all add: SanitizeString_runes)
  have "filter kept (trim_runes (filter kept (runes s))) = trim_runes (filter kept (runes s))"
    using all by (simp add: filter_id_conv)
  then show "SanitizeString (SanitizeString s) = SanitizeString s"
    using SanitizeString_runes [of "SanitizeString s"] SanitizeString_runes [of s]
    unfolding runes_SanitizeString by (simp only: trim_runes_idem)
qed (simp_all add: SanitizeString_runes runes_SanitizeString runes_encode trim_valid filter_valid runes_valid)

theorem sanitize_string_spec_witness:
  "SanitizeString [0x20, 0x61, 0x00, 0xFF, 0xC3, 0xA9, 0x09, 0xC2, 0xA0] = [0x61, 0xEF, 0xBF, 0xBD, 0xC3, 0xA9]"
proof -
  let ?s = "[0x20, 0x61, 0x00, 0xFF, 0xC3, 0xA9, 0x09, 0xC2, 0xA0] :: nat list"
  have "runes ?s = [0x20, 0x61, 0x00, RuneError, 0xE9, 0x09, 0xA0]"
    by (simp add: runes.simps DecodeRune_def cont_def)
  with sanitize_string_spec [of ?s] show ?thesis
    by (simp add: kept_def IsControl_def trim_runes_def IsSpace_def RuneError_def EncodeRune_def surrogate_def)
qed

text \<open>
  Validation reports every failure. The result is nil exactly if the validator accepts the value;
  otherwise there is one entry for each failed field, in the validator's order, with its field, tag and
  value, and a message that names the field; an error that is not about fields is passed on unchanged.
\<close>

theorem validate_reports_all:
  "(Validate vs s = None \<longleftrightarrow> vs s = None)
   \<and> (\<forall>e. vs s = Some (InvalidValidation e) \<longrightarrow> Validate vs s = Some (Passed_on e))
   \<and> (\<forall>fes. vs s = Some (FieldErrors fes) \<longrightarrow> (\<exists>ves. Validate vs s = Some (Failures ves)
        \<and> list_all2 (\<lambda>fe ve. ve_Field ve = fe_Field fe \<and> ve_Tag ve = fe_Tag fe \<and> ve_Value ve = fe_Value fe
            \<and> (\<exists>post. ve_Message ve = ''field '' @ quoted (fe_Field fe) @ post \<and> post \<noteq> [])) fes ves))"
proof -
  have names: "\<exists>post. formatValidationError fe = ''field '' @ quoted (fe_Field fe) @ post \<and> post \<noteq> []" for fe
    by (simp add: formatValidationError_def)
  show ?thesis
    using names
    by (auto simp: Validate_def list_all2_conv_all_nth split: option.splits validator_error.splits)
qed

theorem validate_reports_all_witness:
  "\<exists>ves. Validate (\<lambda>n::nat. Some (FieldErrors [\<lparr>fe_Field = ''Age'', fe_Tag = ''min'', fe_Param = ''18'', fe_Value = ''3''\<rparr>])) 3
      = Some (Failures ves) \<and> length ves = 1"
proof -
  let ?vs = "\<lambda>n::nat. Some (FieldErrors [\<lparr>fe_Field = ''Age'', fe_Tag = ''min'', fe_Param = ''18'', fe_Value = ''3''\<rparr>])"
  from validate_reports_all [of ?vs 3] obtain ves where "Validate ?vs 3 = Some (Failures ves)"
    "list_all2 (\<lambda>fe ve. ve_Field ve = fe_Field fe \<and> ve_Tag ve = fe_Tag fe \<and> ve_Value ve = fe_Value fe
            \<and> (\<exists>post. ve_Message ve = ''field '' @ quoted (fe_Field fe) @ post \<and> post \<noteq> []))
      [\<lparr>fe_Field = ''Age'', fe_Tag = ''min'', fe_Param = ''18'', fe_Value = ''3''\<rparr>] ves" by blast
  then show ?thesis by (auto dest: list_all2_lengthD)
qed

end
