(* ===== verification/GoParse.thy ===== *)
theory GoParse
  imports Prelude Utf8
begin

text \<open>
  The parsers of Go's standard library that \<open>config/config.go\<close> relies on, as \<open>strconv\<close> and \<open>time\<close> write
  them: \<open>ParseUint\<close> and \<open>ParseInt\<close> for base 10 and 64 bits, \<open>ParseBool\<close>, \<open>ParseFloat\<close> and
  \<open>ParseDuration\<close>. Texts are byte lists. A \<open>float64\<close> is a sign, a mantissa and a binary exponent, an
  infinity or a NaN; rounding is to the nearest, ties to even, with gradual underflow.
\<close>

definition ErrSyntax :: gerror where "ErrSyntax = Sentinel ''invalid syntax''"
definition ErrRange :: gerror where "ErrRange = Sentinel ''value out of range''"

definition ascii :: "string \<Rightarrow> nat list" where
  "ascii s = map of_char s"

definition is_digit :: "nat \<Rightarrow> bool" where
  "is_digit c \<longleftrightarrow> 0x30 \<le> c \<and> c \<le> 0x39"

section \<open>Integers and booleans\<close>

text \<open>The digit loop of \<open>strconv.ParseUint\<close> for base 10 and 64 bits: the cutoff keeps \<open>n * 10\<close> in range.\<close>

fun scan_uint :: "nat list \<Rightarrow> nat \<Rightarrow> gerror + nat" where
  "scan_uint [] n = Inr n"
| "scan_uint (c # cs) n =
     (if \<not> is_digit c then Inl ErrSyntax
      else if n \<ge> 1844674407370955162 then Inl ErrRange
      else if 10 * n + (c - 0x30) > 2 ^ 64 - 1 then Inl ErrRange
      else scan_uint cs (10 * n + (c - 0x30)))"

definition ParseUint :: "nat list \<Rightarrow> gerror + nat" where
  "ParseUint s = (if s = [] then Inl ErrSyntax else scan_uint s 0)"

definition ParseInt :: "nat list \<Rightarrow> gerror + int" where
  "ParseInt s =
     (if s = [] then Inl ErrSyntax
      else (let neg = (hd s = 0x2D); s' = (if hd s = 0x2B \<or> hd s = 0x2D then tl s else s)
            in case ParseUint s' of
                 Inl e \<Rightarrow> Inl e
               | Inr un \<Rightarrow>
                   if \<not> neg \<and> un \<ge> 2 ^ 63 then Inl ErrRange
                   else if neg \<and> un > 2 ^ 63 then Inl ErrRange
                   else Inr (if neg then - int un else int un)))"

definition ParseBool :: "nat list \<Rightarrow> gerror + bool" where
  "ParseBool s =
     (if s \<in> ascii ` {''1'', ''t'', ''T'', ''true'', ''TRUE'', ''True''} then Inr True
      else if s \<in> ascii ` {''0'', ''f'', ''F'', ''false'', ''FALSE'', ''False''} then Inr False
      else Inl ErrSyntax)"

section \<open>Rounding a fraction\<close>

fun bit_count :: "nat \<Rightarrow> nat" where
  "bit_count n = (if n = 0 then 0 else Suc (bit_count (n div 2)))"

declare bit_count.simps [simp del]

text \<open>The integer nearest to \<open>a / b\<close>, the even one of two.\<close>

definition round_div :: "nat \<Rightarrow> nat \<Rightarrow> nat" where
  "round_div a b =
     (let q = a div b; r = a mod b
      in if 2 * r < b \<or> (2 * r = b \<and> even q) then q else q + 1)"

text \<open>\<open>p / q\<close> in units of \<open>2\<^sup>e\<close>, as a fraction.\<close>

definition in_units :: "nat \<Rightarrow> nat \<Rightarrow> int \<Rightarrow> nat \<times> nat" where
  "in_units p q e = (if 0 \<le> e then (p, q * 2 ^ nat e) else (p * 2 ^ nat (- e), q))"

text \<open>
  The exponent with which \<open>p / q\<close> has \<open>prec\<close> significant bits, but not less than \<open>emin\<close>; and the
  mantissa and exponent of the rounded fraction.
\<close>

definition unit_exp :: "nat \<Rightarrow> int \<Rightarrow> nat \<Rightarrow> nat \<Rightarrow> int" where
  "unit_exp prec emin p q =
     (if p = 0 then emin
      else (let e = int (bit_count p) - int (bit_count q) - int prec; (a, b) = in_units p q e
            in max emin (if 2 ^ prec * b \<le> a then e + 1 else e)))"

definition round_fraction :: "nat \<Rightarrow> int \<Rightarrow> nat \<Rightarrow> nat \<Rightarrow> nat \<times> int" where
  "round_fraction prec emin p q =
     (let e = unit_exp prec emin p q; (a, b) = in_units p q e; m = round_div a b
      in if m = 2 ^ prec then (2 ^ (prec - 1), e + 1) else (m, e))"

section \<open>Floating-point numbers\<close>

datatype go_float = Finite bool nat int | Infinite bool | NotANumber

text \<open>The double nearest to \<open>\<plusminus>p / q\<close>; above the largest one the parser reports a range error.\<close>

definition float_of_fraction :: "bool \<Rightarrow> nat \<Rightarrow> nat \<Rightarrow> gerror + go_float" where
  "float_of_fraction neg p q =
     (case round_fraction 53 (- 1074) p q of
        (m, e) \<Rightarrow> if e > 971 then Inl ErrRange else Inr (Finite neg m e))"

definition lower :: "nat \<Rightarrow> nat" where
  "lower c = (if 0x41 \<le> c \<and> c \<le> 0x5A then c + 0x20 else c)"

definition is_hex_letter :: "nat \<Rightarrow> bool" where
  "is_hex_letter c \<longleftrightarrow> 0x61 \<le> lower c \<and> lower c \<le> 0x66"

text \<open>
  The mantissa loop of \<open>readFloat\<close>: the digits read as one number, how many of them follow the point,
  whether a point, a digit and an underscore were seen, and the rest of the text.
\<close>

record mantissa =
  digits :: nat
  places :: nat
  sawdot :: bool
  sawdigits :: bool
  underscores :: bool

definition add_digit :: "nat \<Rightarrow> nat \<Rightarrow> mantissa \<Rightarrow> mantissa" where
  "add_digit base d s = s\<lparr>digits := digits s * base + d,
     places := (if sawdot s then places s + 1 else places s), sawdigits := True\<rparr>"

fun scan_mantissa :: "bool \<Rightarrow> nat list \<Rightarrow> mantissa \<Rightarrow> mantissa \<times> nat list" where
  "scan_mantissa hex [] s = (s, [])"
| "scan_mantissa hex (c # cs) s =
     (if c = 0x5F then scan_mantissa hex cs (s\<lparr>underscores := True\<rparr>)
      else if c = 0x2E then
        (if sawdot s then (s, c # cs) else scan_mantissa hex cs (s\<lparr>sawdot := True\<rparr>))
      else if is_digit c then scan_mantissa hex cs (add_digit (if hex then 16 else 10) (c - 0x30) s)
      else if hex \<and> is_hex_letter c then scan_mantissa hex cs (add_digit 16 (lower c - 0x61 + 10) s)
      else (s, c # cs))"

text \<open>The digits of the exponent; once it is above 10000 further digits do not change it.\<close>

fun scan_exponent :: "nat list \<Rightarrow> nat \<Rightarrow> bool \<Rightarrow> nat \<times> bool \<times> nat list" where
  "scan_exponent [] e us = (e, us, [])"
| "scan_exponent (c # cs) e us =
     (if c = 0x5F then scan_exponent cs e True
      else if is_digit c then scan_exponent cs (if e < 10000 then e * 10 + (c - 0x30) else e) us
      else (e, us, c # cs))"

text \<open>\<open>underscoreOK\<close>: underscores stand between digits, or between a base prefix and a digit.\<close>

datatype last_seen = At_start | Digit_seen | Underscore_seen | Other_seen

fun underscores_between :: "bool \<Rightarrow> nat list \<Rightarrow> last_seen \<Rightarrow> bool" where
  "underscores_between hex [] saw = (saw \<noteq> Underscore_seen)"
| "underscores_between hex (c # cs) saw =
     (if is_digit c \<or> (hex \<and> is_hex_letter c) then underscores_between hex cs Digit_seen
      else if c = 0x5F then (saw = Digit_seen \<and> underscores_between hex cs Underscore_seen)
      else saw \<noteq> Underscore_seen \<and> underscores_between hex cs Other_seen)"

definition drop_sign :: "nat list \<Rightarrow> nat list" where
  "drop_sign s = (if s \<noteq> [] \<and> (hd s = 0x2B \<or> hd s = 0x2D) then tl s else s)"

definition underscoreOK :: "nat list \<Rightarrow> bool" where
  "underscoreOK s =
     (case drop_sign s of
        c # d # cs \<Rightarrow>
          if c = 0x30 \<and> lower d \<in> {0x62, 0x6F, 0x78}
          then underscores_between (lower d = 0x78) cs Digit_seen
          else underscores_between False (c # d # cs) At_start
      | cs \<Rightarrow> underscores_between False cs At_start)"

text \<open>\<open>special\<close>: infinities with or without sign, and NaN.\<close>

definition special_float :: "nat list \<Rightarrow> go_float option" where
  "special_float s =
     (if map lower (drop_sign s) \<in> {ascii ''inf'', ascii ''infinity''}
      then Some (Infinite (s \<noteq> [] \<and> hd s = 0x2D))
      else if map lower s = ascii ''nan'' then Some NotANumber else None)"

text \<open>The exponent part: \<open>None\<close> for a syntax error, else the signed exponent and the rest.\<close>

definition read_exponent :: "bool \<Rightarrow> nat list \<Rightarrow> (int \<times> bool \<times> nat list) option" where
  "read_exponent hex s =
     (case s of
        c # cs \<Rightarrow>
          if lower c = (if hex then 0x70 else 0x65) then
            (case drop_sign cs of
               d # ds \<Rightarrow>
                 if is_digit d then
                   (case scan_exponent (d # ds) 0 False of
                      (e, us, rest) \<Rightarrow> Some (if hd cs = 0x2D then - int e else int e, us, rest))
                 else None
             | [] \<Rightarrow> None)
          else if hex then None else Some (0, False, s)
      | [] \<Rightarrow> if hex then None else Some (0, False, s))"

definition ParseFloat :: "nat list \<Rightarrow> gerror + go_float" where
  "ParseFloat s =
     (case special_float s of
        Some x \<Rightarrow> Inr x
      | None \<Rightarrow>
          (let neg = (s \<noteq> [] \<and> hd s = 0x2D); t = drop_sign s;
               hex = (length t > 2 \<and> hd t = 0x30 \<and> lower (t ! 1) = 0x78);
               (mt, rest) = scan_mantissa hex (if hex then drop 2 t else t)
                 \<lparr>digits = 0, places = 0, sawdot = False, sawdigits = False, underscores = False\<rparr>
           in if \<not> sawdigits mt then Inl ErrSyntax
              else (case read_exponent hex rest of
                      None \<Rightarrow> Inl ErrSyntax
                    | Some (e, us, rest') \<Rightarrow>
                        if rest' \<noteq> [] \<or> ((underscores mt \<or> us) \<and> \<not> underscoreOK s) then Inl ErrSyntax
                        else (let x = (if hex then e - 4 * int (places mt) else e - int (places mt));
                                  b = (if hex then 2 else 10)
                              in if x \<ge> 0 then float_of_fraction neg (digits mt * b ^ nat x) 1
                                 else float_of_fraction neg (digits mt) (b ^ nat (- x))))))"

text \<open>
  \<open>reflect\<close>'s \<open>OverflowFloat\<close>, and what \<open>SetFloat\<close> stores: a \<open>float32\<close> field keeps the value rounded to
  24 bits.
\<close>

definition exceeds :: "nat \<Rightarrow> int \<Rightarrow> nat \<Rightarrow> int \<Rightarrow> bool" where
  "exceeds m e m' e' \<longleftrightarrow>
     (if e' \<le> e then m' < m * 2 ^ nat (e - e') else m' * 2 ^ nat (e' - e) < m)"

definition OverflowFloat :: "nat \<Rightarrow> go_float \<Rightarrow> bool" where
  "OverflowFloat bits x =
     (bits = 32 \<and> (case x of Finite neg m e \<Rightarrow> exceeds m e (2 ^ 24 - 1) 104 | _ \<Rightarrow> False))"

definition stored_float :: "nat \<Rightarrow> go_float \<Rightarrow> go_float" where
  "stored_float bits x =
     (case x of
        Finite neg m e \<Rightarrow>
          if bits = 32 then
            (let (p, q) = in_units m 1 (- e); (m', e') = round_fraction 24 (- 149) p q
             in Finite neg m' e')
          else x
      | _ \<Rightarrow> x)"

section \<open>Durations\<close>

definition ErrDuration :: gerror where "ErrDuration = Sentinel ''time: invalid duration''"
definition ErrMissingUnit :: gerror where "ErrMissingUnit = Sentinel ''time: missing unit in duration''"
definition ErrUnknownUnit :: gerror where "ErrUnknownUnit = Sentinel ''time: unknown unit in duration''"

text \<open>The units, micro with either of its two code points.\<close>

definition unit_map :: "nat list \<Rightarrow> nat option" where
  "unit_map = map_of
     [(ascii ''ns'', 1), (ascii ''us'', 1000), ([0xC2, 0xB5, 0x73], 1000), ([0xCE, 0xBC, 0x73], 1000),
      (ascii ''ms'', 1000000), (ascii ''s'', 1000000000), (ascii ''m'', 60000000000),
      (ascii ''h'', 3600000000000)]"

text \<open>\<open>leadingInt\<close>: \<open>None\<close> if the number does not fit.\<close>

fun leadingInt :: "nat list \<Rightarrow> nat \<Rightarrow> (nat \<times> nat list) option" where
  "leadingInt [] x = Some (x, [])"
| "leadingInt (c # cs) x =
     (if \<not> is_digit c then Some (x, c # cs)
      else if x > 2 ^ 63 div 10 then None
      else if 10 * x + (c - 0x30) > 2 ^ 63 then None
      else leadingInt cs (10 * x + (c - 0x30)))"

text \<open>
  \<open>leadingFraction\<close>: the digits that fit, and how many they are (the code keeps the power of ten as a
  \<open>float64\<close>); further digits are skipped.
\<close>

fun leadingFraction :: "nat list \<Rightarrow> nat \<Rightarrow> nat \<Rightarrow> bool \<Rightarrow> nat \<times> nat \<times> nat list" where
  "leadingFraction [] x k overflow = (x, k, [])"
| "leadingFraction (c # cs) x k overflow =
     (if \<not> is_digit c then (x, k, c # cs)
      else if overflow then leadingFraction cs x k True
      else if x > (2 ^ 63 - 1) div 10 then leadingFraction cs x k True
      else if 10 * x + (c - 0x30) > 2 ^ 63 then leadingFraction cs x k True
      else leadingFraction cs (10 * x + (c - 0x30)) (k + 1) False)"

text \<open>
  \<open>uint64(float64(f) * (float64(unit) / scale))\<close>, each operation rounded to 53 bits. The exponent range
  plays no part: the product is below \<open>2\<^sup>6\<^sup>4\<close>, and where \<open>scale\<close> is so large that the quotient would
  underflow the result is 0 either way.
\<close>

definition round53 :: "nat \<times> nat \<Rightarrow> nat \<times> nat" where
  "round53 x =
     (case x of (p, q) \<Rightarrow>
        case round_fraction 53 (int (bit_count p) - int (bit_count q) - 53) p q of (m, e) \<Rightarrow> in_units m 1 (- e))"

fun scale10 :: "nat \<Rightarrow> nat \<times> nat" where
  "scale10 0 = (1, 1)"
| "scale10 (Suc k) = (case scale10 k of (a, b) \<Rightarrow> round53 (a * 10, b))"

definition fraction_ns :: "nat \<Rightarrow> nat \<Rightarrow> nat \<Rightarrow> nat" where
  "fraction_ns f unit k =
     (let (fa, fb) = round53 (f, 1); (sa, sb) = scale10 k;
          (qa, qb) = round53 (unit * sb, sa); (a, b) = round53 (fa * qa, fb * qb)
      in a div b)"

definition is_unit_char :: "nat \<Rightarrow> bool" where
  "is_unit_char c \<longleftrightarrow> c \<noteq> 0x2E \<and> \<not> is_digit c"

text \<open>One round of the loop: a number and its unit, in nanoseconds, and the rest of the text.\<close>

definition duration_part :: "nat list \<Rightarrow> gerror + nat \<times> nat list" where
  "duration_part s =
     (if s = [] \<or> \<not> (hd s = 0x2E \<or> is_digit (hd s)) then Inl ErrDuration
      else (case leadingInt s 0 of
              None \<Rightarrow> Inl ErrDuration
            | Some (v, s1) \<Rightarrow>
                (let pre = (length s1 \<noteq> length s);
                     point = (s1 \<noteq> [] \<and> hd s1 = 0x2E);
                     (f, k, s2) = (if point then leadingFraction (tl s1) 0 0 False else (0, 0, s1));
                     post = (point \<and> length s2 \<noteq> length (tl s1))
                 in if \<not> pre \<and> \<not> post then Inl ErrDuration
                    else (let u = takeWhile is_unit_char s2; s3 = dropWhile is_unit_char s2
                          in if u = [] then Inl ErrMissingUnit
                             else (case unit_map u of
                                     None \<Rightarrow> Inl ErrUnknownUnit
                                   | Some unit \<Rightarrow>
                                       if v > 2 ^ 63 div unit then Inl ErrDuration
                                       else (let v' = v * unit + (if f > 0 then fraction_ns f unit k else 0)
                                             in if f > 0 \<and> v' > 2 ^ 63 then Inl ErrDuration
                                                else Inr (v', s3)))))))"

lemma leadingInt_length: "leadingInt s x = Some (v, s') \<Longrightarrow> length s' \<le> length s"
  by (induction s x rule: leadingInt.induct) (auto split: if_splits)

lemma leadingFraction_length: "leadingFraction s x k ov = (f, k', s') \<Longrightarrow> length s' \<le> length s"
  by (induction s x k ov rule: leadingFraction.induct) (auto simp: is_digit_def split: if_splits)

lemma duration_part_shorter:
  assumes "duration_part s = Inr (v, s')"
  shows "length s' < length s"
proof -
  from assms obtain v1 s1 where s1: "leadingInt s 0 = Some (v1, s1)"
    by (auto simp: duration_part_def split: if_splits option.splits)
  define point where "point = (s1 \<noteq> [] \<and> hd s1 = 0x2E)"
  obtain f k s2 where s2: "(if point then leadingFraction (tl s1) 0 0 False else (0, 0, s1)) = (f, k, s2)"
    by (metis prod_cases3)
  have "takeWhile is_unit_char s2 \<noteq> []" "s' = dropWhile is_unit_char s2"
    using assms s1 s2
    by (auto simp: duration_part_def point_def [symmetric] Let_def split: if_splits option.splits)
  then have "length s' < length s2"
    using takeWhile_dropWhile_id [of is_unit_char s2] by (metis length_append length_greater_0_conv less_add_same_cancel2)
  moreover have "length s2 \<le> length s1"
    using s2 leadingFraction_length [of "tl s1" 0 0 False f k s2] by (auto split: if_splits)
  ultimately show ?thesis using leadingInt_length [OF s1] by simp
qed

text \<open>The loop over the parts; the sum is a \<open>uint64\<close>, which wraps.\<close>

function duration_sum :: "nat list \<Rightarrow> nat \<Rightarrow> gerror + nat" where
  "duration_sum s d =
     (if s = [] then Inr d
      else (case duration_part s of
              Inl err \<Rightarrow> Inl err
            | Inr (v, s') \<Rightarrow>
                if (d + v) mod 2 ^ 64 > 2 ^ 63 then Inl ErrDuration
                else duration_sum s' ((d + v) mod 2 ^ 64)))"
  by pat_completeness auto
termination
  by (relation "measure (\<lambda>(s, d). length s)") (auto dest: duration_part_shorter)

declare duration_sum.simps [simp del]

definition ParseDuration :: "nat list \<Rightarrow> gerror + int" where
  "ParseDuration s =
     (let neg = (s \<noteq> [] \<and> hd s = 0x2D); t = drop_sign s
      in if t = [0x30] then Inr 0
         else if t = [] then Inl ErrDuration
         else (case duration_sum t 0 of
                 Inl err \<Rightarrow> Inl err
               | Inr d \<Rightarrow>
                   if neg then Inr (- int d)
                   else if d > 2 ^ 63 - 1 then Inl ErrDuration
                   else Inr (int d)))"

end
