(* ===== verification/Config.thy ===== *)
theory Config
  imports GoParse
begin

text \<open>
  \<open>config/config.go\<close>: filling a struct from environment variables. A struct is the list of its fields;
  a field is a plain one with its tags, type and value, a nested struct, or a pointer to a struct of a
  named type. The zero values of the named types, which \<open>reflect.New\<close> allocates, are a table, so that a
  type may refer to itself. The parsers are those of \<open>GoParse\<close>; the environment and the validator are
  parameters. Values of environment variables and tags are byte strings.
\<close>

text \<open>\<open>strings.Split\<close> at commas.\<close>

fun split_comma :: "nat list \<Rightarrow> nat list list" where
  "split_comma [] = [[]]"
| "split_comma (c # cs) =
     (if c = 0x2C then [] # split_comma cs
      else (case split_comma cs of [] \<Rightarrow> [[c]] | p # ps \<Rightarrow> (c # p) # ps))"

section \<open>Fields\<close>

datatype gotype = TString | TInt nat | TDuration | TUint nat | TBool | TFloat nat | TSlice gotype | TOther string

datatype gvalue =
    VString "nat list" | VInt int | VUint nat | VBool bool | VFloat go_float | VSlice "gvalue list" | VOther nat

text \<open>\<open>os.LookupEnv\<close>.\<close>

type_synonym environment = "string \<Rightarrow> nat list option"

definition OverflowInt :: "nat \<Rightarrow> int \<Rightarrow> bool" where
  "OverflowInt bits x \<longleftrightarrow> \<not> (- (2 ^ (bits - 1)) \<le> x \<and> x < 2 ^ (bits - 1))"

definition OverflowUint :: "nat \<Rightarrow> nat \<Rightarrow> bool" where
  "OverflowUint bits x \<longleftrightarrow> \<not> x < 2 ^ bits"

text \<open>The loop over the parts of a slice value: empty parts are skipped, the first error ends it.\<close>

fun set_elems :: "(nat list \<Rightarrow> gerror + gvalue) \<Rightarrow> nat list list \<Rightarrow> gvalue list \<Rightarrow> gerror + gvalue list" where
  "set_elems set_elem [] slice = Inr slice"
| "set_elems set_elem (part # parts) slice =
     (let part = TrimSpace part
      in if part = [] then set_elems set_elem parts slice
         else (case set_elem part of
                 Inl err \<Rightarrow> Inl err
               | Inr elem \<Rightarrow> set_elems set_elem parts (slice @ [elem])))"

text \<open>\<open>fmt.Errorf("%s overflow for value %s", ...)\<close> prints the value's bytes.\<close>

definition overflow_error :: "string \<Rightarrow> nat list \<Rightarrow> gerror" where
  "overflow_error what value = Sentinel (what @ '' overflow for value '' @ map char_of value)"

fun setField :: "gotype \<Rightarrow> nat list \<Rightarrow> gerror + gvalue" where
  "setField TString value = Inr (VString value)"
| "setField TDuration value =
     (case ParseDuration value of Inl err \<Rightarrow> Inl err | Inr d \<Rightarrow> Inr (VInt d))"
| "setField (TInt bits) value =
     (case ParseInt value of
        Inl err \<Rightarrow> Inl err
      | Inr intVal \<Rightarrow>
          if OverflowInt bits intVal then Inl (overflow_error ''integer'' value) else Inr (VInt intVal))"
| "setField (TUint bits) value =
     (case ParseUint value of
        Inl err \<Rightarrow> Inl err
      | Inr uintVal \<Rightarrow>
          if OverflowUint bits uintVal then Inl (overflow_error ''uint'' value) else Inr (VUint uintVal))"
| "setField TBool value =
     (case ParseBool value of Inl err \<Rightarrow> Inl err | Inr boolVal \<Rightarrow> Inr (VBool boolVal))"
| "setField (TFloat bits) value =
     (case ParseFloat value of
        Inl err \<Rightarrow> Inl err
      | Inr floatVal \<Rightarrow>
          if OverflowFloat bits floatVal then Inl (overflow_error ''float'' value)
          else Inr (VFloat (stored_float bits floatVal)))"
| "setField (TSlice elem_type) value =
     (case set_elems (\<lambda>part. setField elem_type part) (split_comma value) [] of
        Inl err \<Rightarrow> Inl err
      | Inr slice \<Rightarrow> Inr (VSlice slice))"
| "setField (TOther kind) value = Inl (Sentinel (''unsupported type '' @ kind))"

text \<open>A leaf: name, env tag, envDefault tag, type.\<close>

record leaf =
  leaf_name :: string
  leaf_env :: string
  leaf_default :: "nat list"
  leaf_type :: gotype

text \<open>A pointer has the name of its type; the pointee if it is not nil.\<close>

datatype field =
    Plain leaf bool gvalue                          \<comment> \<open>settable?, value\<close>
  | Nested bool "field list"
  | Pointer bool string "field list option"

type_synonym zero_values = "string \<Rightarrow> field list"

text \<open>The value a leaf is to be set from, if there is one.\<close>

definition raw_value :: "environment \<Rightarrow> leaf \<Rightarrow> nat list option" where
  "raw_value E l =
     (if leaf_env l = [] then None
      else (case E (leaf_env l) of
              Some v \<Rightarrow> Some v
            | None \<Rightarrow> if leaf_default l = [] then None else Some (leaf_default l)))"

definition set_error :: "leaf \<Rightarrow> gerror \<Rightarrow> gerror" where
  "set_error l err = Wrapped (''failed to set field '' @ leaf_name l) err"

text \<open>
  \<open>populate\<close> writes in place: the fields before the failing one keep what was written to them, and a
  pointer allocated on the way stays allocated. It follows pointers without end if the types do, so
  it has the depth of pointers it may follow as fuel; \<open>None\<close> means that the fuel did not suffice.
\<close>

function populate :: "nat \<Rightarrow> zero_values \<Rightarrow> environment \<Rightarrow> field list \<Rightarrow> (gerror option \<times> field list) option"
  and populate_field :: "nat \<Rightarrow> zero_values \<Rightarrow> environment \<Rightarrow> field \<Rightarrow> (gerror option \<times> field) option" where
  "populate n Z E [] = Some (None, [])"
| "populate n Z E (f # fs) =
     (case populate_field n Z E f of
        None \<Rightarrow> None
      | Some (Some err, f') \<Rightarrow> Some (Some err, f' # fs)
      | Some (None, f') \<Rightarrow>
          (case populate n Z E fs of None \<Rightarrow> None | Some (err, fs') \<Rightarrow> Some (err, f' # fs')))"
| "populate_field n Z E (Plain l can_set v) =
     (if \<not> can_set then Some (None, Plain l can_set v)
      else (case raw_value E l of
              None \<Rightarrow> Some (None, Plain l can_set v)
            | Some envVal \<Rightarrow>
                (case setField (leaf_type l) envVal of
                   Inl err \<Rightarrow> Some (Some (set_error l err), Plain l can_set v)
                 | Inr v' \<Rightarrow> Some (None, Plain l can_set v'))))"
| "populate_field n Z E (Nested can_set fs) =
     (if \<not> can_set then Some (None, Nested can_set fs)
      else (case populate n Z E fs of
              None \<Rightarrow> None
            | Some (err, fs') \<Rightarrow> Some (err, Nested can_set fs')))"
| "populate_field n Z E (Pointer can_set T p) =
     (if \<not> can_set then Some (None, Pointer can_set T p)
      else (case n of
              0 \<Rightarrow> None
            | Suc n' \<Rightarrow>
                (case populate n' Z E (case p of None \<Rightarrow> Z T | Some fs \<Rightarrow> fs) of
                   None \<Rightarrow> None
                 | Some (err, fs') \<Rightarrow> Some (err, Pointer can_set T (Some fs')))))"
  by pat_completeness auto
termination
  by (relation "measures [\<lambda>x. case x of Inl (n, _) \<Rightarrow> n | Inr (n, _) \<Rightarrow> n,
      \<lambda>x. case x of Inl (_, _, _, fs) \<Rightarrow> size_list size fs | Inr (_, _, _, f) \<Rightarrow> size f]") auto

text \<open>What \<open>Load\<close> is given.\<close>

datatype load_arg = Not_a_pointer | Nil_pointer | Pointer_to_other | Pointer_to_struct "field list"

definition Load ::
    "(field list \<Rightarrow> gerror option) \<Rightarrow> nat \<Rightarrow> zero_values \<Rightarrow> environment \<Rightarrow> load_arg
     \<Rightarrow> (gerror option \<times> load_arg) option" where
  "Load validate_Struct n Z E cfg =
     (case cfg of
        Not_a_pointer \<Rightarrow> Some (Some (Sentinel ''cfg must be a non-nil pointer to a struct''), cfg)
      | Nil_pointer \<Rightarrow> Some (Some (Sentinel ''cfg must be a non-nil pointer to a struct''), cfg)
      | Pointer_to_other \<Rightarrow> Some (Some (Sentinel ''cfg must be a pointer to a struct''), cfg)
      | Pointer_to_struct fs \<Rightarrow>
          (case populate n Z E fs of
             None \<Rightarrow> None
           | Some (Some err, fs') \<Rightarrow> Some (Some err, Pointer_to_struct fs')
           | Some (None, fs') \<Rightarrow> Some (validate_Struct fs', Pointer_to_struct fs')))"

end
