(* ===== verification/GoParseSpec.thy ===== *)
theory GoParseSpec
  imports Complex_Main GoParse
begin

text \<open>
  What the parsers of \<open>GoParse\<close> guarantee: rounding yields a nearest number of the format, decimal
  fractions are read as the numbers they denote, integers and durations are read back from their
  printed forms, and every result is in range.
\<close>

section \<open>Rounding\<close>

lemma bit_count_bounds: "0 < n \<Longrightarrow> 2 ^ bit_count n \<le> 2 * n \<and> n < 2 ^ bit_count n"
proof (induction n rule: bit_count.induct)
  case (1 n)
  show ?case
  proof (cases "n div 2 = 0")
    case True
    with "1.prems" have "n = 1" by simp
    then show ?thesis by (simp add: bit_count.simps)
  next
    case False
    with 1 have "2 ^ bit_count (n div 2) \<le> 2 * (n div 2)" "n div 2 < 2 ^ bit_count (n div 2)" by auto
    with "1.prems" show ?thesis by (subst (1 2) bit_count.simps) auto
  qed
qed

text \<open>A fraction of naturals as a real number, in units of \<open>2\<^sup>e\<close>.\<close>

lemma in_units_ratio:
  assumes "in_units p q e = (a, b)" "0 < q"
  shows "0 < b" and "real a / real b * 2 powi e = real p / real q"
  using assms by (auto simp: in_units_def power_int_def field_simps split: if_splits)

lemma round_div_error:
  assumes "0 < b"
  shows "\<bar>real (round_div a b) - real a / real b\<bar> \<le> 1 / 2"
proof -
  let ?q = "a div b" and ?r = "a mod b"
  have "real a = real ?q * real b + real ?r" by (metis div_mult_mod_eq of_nat_add of_nat_mult)
  then have eq: "real a / real b = real ?q + real ?r / real b" using assms by (simp add: field_simps)
  have r: "real ?r < real b" using assms by simp
  show ?thesis
  proof (cases "2 * ?r < b \<or> (2 * ?r = b \<and> even ?q)")
    case True
    then have "2 * real ?r \<le> real b" by (metis less_imp_le of_nat_le_iff of_nat_mult of_nat_numeral order_refl)
    with assms True show ?thesis by (simp add: round_div_def Let_def eq field_simps)
  next
    case False
    then have "b \<le> 2 * ?r" by linarith
    then have "real b \<le> 2 * real ?r" by (metis of_nat_le_iff of_nat_mult of_nat_numeral)
    moreover have "round_div a b = ?q + 1" using False by (simp add: round_div_def Let_def)
    ultimately show ?thesis using assms r by (simp add: eq abs_if field_simps)
  qed
qed

text \<open>No integer is nearer.\<close>

lemma round_div_nearest:
  assumes "0 < b"
  shows "\<bar>real (round_div a b) - real a / real b\<bar> \<le> \<bar>real_of_int k - real a / real b\<bar>"
proof (cases "k = int (round_div a b)")
  case False
  then have "1 \<le> \<bar>k - int (round_div a b)\<bar>" by linarith
  then have "real_of_int 1 \<le> real_of_int \<bar>k - int (round_div a b)\<bar>" by (simp only: of_int_le_iff)
  then have "1 \<le> \<bar>real_of_int k - real (round_div a b)\<bar>" by simp
  with round_div_error [OF assms, of a] show ?thesis by linarith
qed simp

lemma round_div_mono_bound: "0 < b \<Longrightarrow> a \<le> c * b \<Longrightarrow> round_div a b \<le> c"
proof -
  assume b: "0 < b" and le: "a \<le> c * b"
  show ?thesis
  proof (cases "a = c * b")
    case True
    with b show ?thesis by (simp add: round_div_def)
  next
    case False
    with le have "a < c * b" by simp
    then have "a div b < c" using b by (simp add: div_less_iff_less_mult)
    then show ?thesis by (simp add: round_div_def Let_def)
  qed
qed

text \<open>The chosen unit gives the fraction at most \<open>prec\<close> bits, and exactly \<open>prec\<close> above the least unit.\<close>

lemma ratio_bounds:
  assumes "0 < p" "0 < q"
  shows "2 powi (int (bit_count p) - int (bit_count q) - 1) < real p / real q"
    and "real p / real q < 2 powi (int (bit_count p) - int (bit_count q) + 1)"
proof -
  have nat: "2 ^ bit_count p \<le> 2 * p" "p < 2 ^ bit_count p" "2 ^ bit_count q \<le> 2 * q" "q < 2 ^ bit_count q"
    using bit_count_bounds assms by auto
  have r: "2 ^ bit_count p \<le> 2 * real p" "real p < 2 ^ bit_count p"
    "2 ^ bit_count q \<le> 2 * real q" "real q < 2 ^ bit_count q"
    using nat by (metis of_nat_le_iff of_nat_mult of_nat_numeral of_nat_power, metis of_nat_less_iff of_nat_numeral of_nat_power)
      (metis nat(3) of_nat_le_iff of_nat_mult of_nat_numeral of_nat_power, metis nat(4) of_nat_less_iff of_nat_numeral of_nat_power)
  have pw: "2 powi (int (bit_count p) - int (bit_count q) - 1) = (2::real) ^ bit_count p / (2 * 2 ^ bit_count q)"
    "2 powi (int (bit_count p) - int (bit_count q) + 1) = 2 * (2::real) ^ bit_count p / 2 ^ bit_count q"
    by (simp_all add: power_int_add power_int_diff)
  have "2 ^ bit_count p * real q < 2 * real p * 2 ^ bit_count q"
    using r assms by (intro mult_le_less_imp_less) auto
  then show "2 powi (int (bit_count p) - int (bit_count q) - 1) < real p / real q"
    unfolding pw using assms by (simp add: field_simps)
  have "real p * 2 ^ bit_count q < 2 ^ bit_count p * (2 * real q)"
    using r assms by (intro mult_less_le_imp_less) auto
  then show "real p / real q < 2 powi (int (bit_count p) - int (bit_count q) + 1)"
    unfolding pw using assms by (simp add: field_simps)
qed

lemma in_units_ge:
  assumes "in_units p q e = (a, b)" "0 < q"
  shows "2 ^ n * b \<le> a \<longleftrightarrow> 2 powi (e + int n) \<le> real p / real q"
proof -
  note u = in_units_ratio [OF assms]
  have "2 ^ n * b \<le> a \<longleftrightarrow> 2 ^ n * real b \<le> real a"
    by (metis of_nat_le_iff of_nat_mult of_nat_numeral of_nat_power)
  also have "\<dots> \<longleftrightarrow> 2 ^ n \<le> real a / real b" using u(1) by (simp add: field_simps)
  also have "\<dots> \<longleftrightarrow> 2 ^ n * 2 powi e \<le> real a / real b * 2 powi e"
    by (subst mult_le_cancel_right_pos) simp_all
  also have "2 ^ n * 2 powi e = (2 powi (e + int n) :: real)" by (simp add: power_int_add)
  finally show ?thesis unfolding u(2) .
qed

lemma unit_exp_bounds:
  assumes "0 < p" "0 < q"
  shows "emin \<le> unit_exp prec emin p q"
    and "real p / real q < 2 powi (unit_exp prec emin p q + int prec)"
    and "emin < unit_exp prec emin p q \<Longrightarrow> 2 powi (unit_exp prec emin p q + int prec - 1) \<le> real p / real q"
proof -
  define e where "e = int (bit_count p) - int (bit_count q) - int prec"
  obtain a b where ab: "in_units p q e = (a, b)" by (cases "in_units p q e")
  define e1 where "e1 = (if 2 ^ prec * b \<le> a then e + 1 else e)"
  have ue: "unit_exp prec emin p q = max emin e1"
    using assms(1) ab by (simp add: unit_exp_def e_def [symmetric] e1_def)
  have lo: "2 powi (e + int prec - 1) < real p / real q" and hi: "real p / real q < 2 powi (e + int prec + 1)"
    using ratio_bounds [OF assms] by (simp_all add: e_def)
  have up: "real p / real q < 2 powi (e1 + int prec)"
    using hi in_units_ge [OF ab assms(2), of prec] by (auto simp: e1_def algebra_simps)
  show "emin \<le> unit_exp prec emin p q" by (simp add: ue)
  have "(2::real) powi (e1 + int prec) \<le> 2 powi (max emin e1 + int prec)"
    by (intro power_int_increasing) simp_all
  with up show "real p / real q < 2 powi (unit_exp prec emin p q + int prec)" by (simp add: ue)
  assume "emin < unit_exp prec emin p q"
  then have "unit_exp prec emin p q = e1" by (simp add: ue)
  then show "2 powi (unit_exp prec emin p q + int prec - 1) \<le> real p / real q"
    using lo in_units_ge [OF ab assms(2), of prec] by (auto simp: e1_def algebra_simps)
qed

text \<open>
  The rounded fraction is a number of the format, and no number of the format (of either sign) is nearer.
\<close>

lemma round_fraction_carry:
  assumes "round_fraction prec emin p q = (m, e)" "0 < prec"
    and "in_units p q (unit_exp prec emin p q) = (a, b)"
  shows "real m * 2 powi e = real (round_div a b) * 2 powi unit_exp prec emin p q"
    and "unit_exp prec emin p q \<le> e"
proof -
  have "(2::real) ^ (prec - 1) * 2 powi (unit_exp prec emin p q + 1) = 2 ^ prec * 2 powi unit_exp prec emin p q"
    using assms(2) by (cases prec) (simp_all add: power_int_add)
  with assms show "real m * 2 powi e = real (round_div a b) * 2 powi unit_exp prec emin p q"
    by (auto simp: round_fraction_def Let_def split: if_splits)
  show "unit_exp prec emin p q \<le> e"
    using assms by (auto simp: round_fraction_def Let_def split: if_splits)
qed

lemma round_fraction_format:
  assumes "round_fraction prec emin p q = (m, e)" "0 < prec" "0 < q"
  shows "m < 2 ^ prec" and "emin \<le> e"
proof -
  define u where "u = unit_exp prec emin p q"
  obtain a b where ab: "in_units p q u = (a, b)" by (cases "in_units p q u")
  have "emin \<le> u \<and> round_div a b \<le> 2 ^ prec"
  proof (cases "p = 0")
    case True
    then have "a = 0" using ab by (auto simp: in_units_def split: if_splits)
    then have "round_div a b = 0" by (cases b) (auto simp: round_div_def)
    with True show ?thesis by (simp add: u_def unit_exp_def)
  next
    case False
    then have "\<not> 2 ^ prec * b \<le> a"
      using unit_exp_bounds(2) [of p q prec emin] in_units_ge [OF ab assms(3), of prec] assms(3)
      by (simp add: u_def)
    with in_units_ratio(1) [OF ab assms(3)] have "round_div a b \<le> 2 ^ prec"
      by (intro round_div_mono_bound) simp_all
    with False unit_exp_bounds(1) [of p q emin prec] assms(3) show ?thesis by (simp add: u_def)
  qed
  with assms(1,2) ab show "m < 2 ^ prec" "emin \<le> e"
    by (auto simp: round_fraction_def u_def [symmetric] Let_def split: if_splits)
qed

lemma grid_multiple:
  assumes "u \<le> (e::int)"
  obtains j where "real_of_int k * 2 powi e = real_of_int j * 2 powi u"
proof
  have "2 powi e = (2::real) ^ nat (e - u) * 2 powi u"
    using assms by (simp add: power_int_add [symmetric] power_int_of_nat [symmetric] del: power_int_of_nat)
  then show "real_of_int k * 2 powi e = real_of_int (k * 2 ^ nat (e - u)) * 2 powi u" by simp
qed

lemma below_unit:
  assumes "\<bar>k\<bar> < 2 ^ prec" "e' < unit_exp prec emin p q" "emin \<le> e'" "0 < q"
  shows "real_of_int k * 2 powi e' \<le> 2 powi (unit_exp prec emin p q + int prec - 1)"
    and "2 powi (unit_exp prec emin p q + int prec - 1) \<le> real p / real q"
proof -
  let ?u = "unit_exp prec emin p q"
  have "0 < p" using assms(2,3) by (cases "p = 0") (simp_all add: unit_exp_def)
  with unit_exp_bounds(3) [OF this assms(4), of emin prec] assms(2,3)
  show "2 powi (?u + int prec - 1) \<le> real p / real q" by simp
  have "real_of_int k * 2 powi e' \<le> 2 ^ prec * 2 powi (?u - 1)"
  proof (intro mult_mono power_int_increasing)
    have "real_of_int k \<le> real_of_int (2 ^ prec)" using assms(1) by (simp only: of_int_le_iff)
    then show "real_of_int k \<le> 2 ^ prec" by simp
  qed (use assms(2) in simp_all)
  also have "\<dots> = 2 powi (?u + int prec - 1)" by (simp add: power_int_add power_int_diff)
  finally show "real_of_int k * 2 powi e' \<le> 2 powi (?u + int prec - 1)" .
qed

lemma round_fraction_nearest:
  assumes "round_fraction prec emin p q = (m, e)" "0 < prec" "0 < q"
    and "\<bar>k\<bar> < 2 ^ prec" "emin \<le> e'"
  shows "\<bar>real m * 2 powi e - real p / real q\<bar> \<le> \<bar>real_of_int k * 2 powi e' - real p / real q\<bar>"
proof -
  define u where "u = unit_exp prec emin p q"
  obtain a b where ab: "in_units p q u = (a, b)" by (cases "in_units p q u")
  note pos = in_units_ratio [OF ab assms(3)]
  have val: "real m * 2 powi e = real (round_div a b) * 2 powi u"
    using round_fraction_carry(1) [OF assms(1,2)] ab by (simp add: u_def)
  have near: "\<bar>real m * 2 powi e - real p / real q\<bar> \<le> \<bar>real_of_int j * 2 powi u - real p / real q\<bar>" for j
  proof -
    have "\<bar>real (round_div a b) - real a / real b\<bar> * 2 powi u \<le> \<bar>real_of_int j - real a / real b\<bar> * 2 powi u"
      using round_div_nearest [OF pos(1), of a j] by (intro mult_right_mono) simp_all
    moreover have "\<bar>x - real a / real b\<bar> * 2 powi u = \<bar>x * 2 powi u - real p / real q\<bar>" for x
      unfolding pos(2) [symmetric] left_diff_distrib [symmetric] by (simp add: abs_mult)
    ultimately show ?thesis by (simp add: val)
  qed
  show ?thesis
  proof (cases "u \<le> e'")
    case True
    then obtain j where "real_of_int k * 2 powi e' = real_of_int j * 2 powi u" by (rule grid_multiple)
    with near show ?thesis by metis
  next
    case False
    then have "e' < unit_exp prec emin p q" by (simp add: u_def)
    note low = below_unit [OF assms(4) this assms(5,3), folded u_def]
    have "(2::real) powi (u + int prec - 1) = real_of_int (2 ^ (prec - 1)) * 2 powi u"
      using assms(2) by (cases prec) (simp_all add: power_int_add)
    with near [of "2 ^ (prec - 1)"] low show ?thesis by simp
  qed
qed

section \<open>Doubles\<close>

fun float_value :: "go_float \<Rightarrow> real" where
  "float_value (Finite neg m e) = (if neg then - 1 else 1) * (real m * 2 powi e)"
| "float_value x = 0"

definition is_double :: "nat \<Rightarrow> int \<Rightarrow> bool" where
  "is_double m e \<longleftrightarrow> m < 2 ^ 53 \<and> - 1074 \<le> e \<and> e \<le> 971"

text \<open>A finite double nearest to a real number.\<close>

definition nearest_double :: "go_float \<Rightarrow> real \<Rightarrow> bool" where
  "nearest_double y x \<longleftrightarrow> (\<exists>neg m e. y = Finite neg m e \<and> is_double m e)
     \<and> (\<forall>neg m e. is_double m e \<longrightarrow> \<bar>float_value y - x\<bar> \<le> \<bar>float_value (Finite neg m e) - x\<bar>)"

lemma round_div_reaches:
  assumes "0 < b" "even N" "0 < N" "2 * N * b \<le> 2 * a + b"
  shows "N \<le> round_div a b"
proof -
  have a: "a = a div b * b + a mod b" by simp
  show ?thesis
  proof (cases "N \<le> a div b")
    case True
    then show ?thesis by (simp add: round_div_def Let_def)
  next
    case False
    have "\<not> a div b + 2 \<le> N"
    proof
      assume "a div b + 2 \<le> N"
      then have "(a div b + 2) * b \<le> N * b" by (rule mult_le_mono1)
      then have "a div b * b + 2 * b \<le> N * b" by (simp add: add_mult_distrib)
      moreover have "2 * (N * b) \<le> 2 * (a div b * b + a mod b) + b" using assms(4) a by (simp add: mult.assoc)
      moreover have False if "x + 2 * b \<le> y" "2 * y \<le> 2 * (x + r) + b" "r < b" for x y r :: nat
        using that by presburger
      ultimately show False using mod_less_divisor [OF assms(1), of a] by blast
    qed
    with False have q: "a div b = N - 1" by linarith
    then have "odd (a div b)" using assms(2,3) by simp
    moreover have "b \<le> 2 * (a mod b)" using assms a q by (cases N) (auto simp: algebra_simps)
    ultimately show ?thesis using q assms(3) by (simp add: round_div_def Let_def)
  qed
qed

lemma float_range_iff:
  assumes "0 < q"
  shows "float_of_fraction neg p q = Inl ErrRange \<longleftrightarrow> (2 ^ 54 - 1) * 2 ^ 970 \<le> real p / real q"
proof -
  define u where "u = unit_exp 53 (- 1074) p q"
  obtain a b where ab: "in_units p q u = (a, b)" by (cases "in_units p q u")
  obtain m e where me: "round_fraction 53 (- 1074) p q = (m, e)" by (cases "round_fraction 53 (- 1074) p q")
  note pos = in_units_ratio [OF ab assms]
  have e: "e = (if round_div a b = 2 ^ 53 then u + 1 else u)"
    using me ab by (simp add: round_fraction_def u_def [symmetric] Let_def split: if_splits)
  have lhs: "float_of_fraction neg p q = Inl ErrRange \<longleftrightarrow> 971 < e" by (simp add: float_of_fraction_def me)
  have top: "(2 ^ 54 - 1) * 2 ^ 970 < (2::real) powi (972 + 52)" by simp
  show ?thesis
  proof (cases "p = 0")
    case True
    then have "u = - 1074" by (simp add: u_def unit_exp_def)
    with True e lhs show ?thesis by (auto split: if_splits)
  next
    case False
    then have p: "0 < p" by simp
    note b = unit_exp_bounds [OF p assms, where prec = 53 and emin = "- 1074", folded u_def]
    consider "971 < u" | "u = 971" | "u < 971" by linarith
    then show ?thesis
    proof cases
      case 1
      have "(2::real) powi (972 + 52) \<le> 2 powi (u + 52)" using 1 by (intro power_int_increasing) simp_all
      also have "\<dots> \<le> real p / real q" using b(3) 1 by (simp add: add.commute)
      finally show ?thesis using 1 e lhs top by auto
    next
      case 2
      have x: "real p / real q = real a / real b * 2 ^ 971" using pos(2) 2 by (simp add: power_int_def)
      have "(2 ^ 54 - 1) * 2 ^ 970 \<le> real p / real q \<longleftrightarrow> 2 ^ 53 - 1 / 2 \<le> real a / real b"
        unfolding x by (subst (2) mult_le_cancel_right_pos [where c = "2 ^ 971", symmetric]) simp_all
      moreover have "2 ^ 53 - 1 / 2 \<le> real a / real b" if "round_div a b = 2 ^ 53"
        using abs_le_D1 [OF round_div_error [OF pos(1), of a]] unfolding that of_nat_power of_nat_numeral
        by linarith
      moreover have "round_div a b = 2 ^ 53" if le: "2 ^ 53 - 1 / 2 \<le> real a / real b"
      proof (rule antisym)
        have "\<not> 2 ^ 53 * b \<le> a" using b(2) in_units_ge [OF ab assms, of 53] by simp
        with pos(1) show "round_div a b \<le> 2 ^ 53" by (intro round_div_mono_bound) simp_all
        have "real (2 * 2 ^ 53 * b) \<le> real (2 * a + b)" using le pos(1) by (simp add: field_simps)
        then have "2 * 2 ^ 53 * b \<le> 2 * a + b" by (simp only: of_nat_le_iff)
        then show "2 ^ 53 \<le> round_div a b" using pos(1) by (intro round_div_reaches) simp_all
      qed
      ultimately show ?thesis using 2 e lhs by auto
    next
      case 3
      have "real p / real q < 2 powi (u + 53)" using b(2) by simp
      also have "\<dots> \<le> 2 powi (970 + 53)" using 3 by (intro power_int_increasing) simp_all
      also have "\<dots> \<le> (2 ^ 54 - 1) * 2 ^ 970" by simp
      finally show ?thesis using 3 e lhs by simp
    qed
  qed
qed

lemma float_nearest:
  assumes "float_of_fraction neg p q = Inr y" "0 < q"
  shows "nearest_double y ((if neg then - 1 else 1) * (real p / real q))"
proof -
  obtain m e where me: "round_fraction 53 (- 1074) p q = (m, e)" by (cases "round_fraction 53 (- 1074) p q")
  have y: "y = Finite neg m e" "e \<le> 971" using assms(1) by (auto simp: float_of_fraction_def me split: if_splits)
  have "is_double m e" using round_fraction_format [OF me _ assms(2)] y(2) by (simp add: is_double_def)
  moreover have "\<bar>float_value y - (if neg then - 1 else 1) * (real p / real q)\<bar>
      \<le> \<bar>float_value (Finite neg' m' e') - (if neg then - 1 else 1) * (real p / real q)\<bar>"
    if "is_double m' e'" for neg' m' e'
  proof -
    have "\<bar>real m * 2 powi e - real p / real q\<bar>
        \<le> \<bar>real_of_int ((if neg = neg' then 1 else - 1) * int m') * 2 powi e' - real p / real q\<bar>"
      using that by (intro round_fraction_nearest [OF me _ assms(2)]) (auto simp: is_double_def)
    then show ?thesis by (simp add: y abs_minus_commute split: if_splits)
  qed
  ultimately show ?thesis using y by (auto simp: nearest_double_def)
qed

section \<open>Decimal fractions\<close>

definition decimal_value :: "nat list \<Rightarrow> nat" where
  "decimal_value ds = foldl (\<lambda>n c. n * 10 + (c - 0x30)) 0 ds"

definition decimal_text :: "bool \<Rightarrow> nat list \<Rightarrow> nat list \<Rightarrow> nat list" where
  "decimal_text neg ds fs = (if neg then [0x2D] else []) @ ds @ 0x2E # fs"

lemma scan_mantissa_digits:
  "list_all is_digit ds \<Longrightarrow> scan_mantissa False (ds @ rest) s =
     scan_mantissa False rest (s\<lparr>digits := foldl (\<lambda>n c. n * 10 + (c - 0x30)) (digits s) ds,
       places := places s + (if sawdot s then length ds else 0), sawdigits := sawdigits s \<or> ds \<noteq> []\<rparr>)"
proof (induction ds arbitrary: s)
  case (Cons c ds)
  then show ?case by (auto simp: is_digit_def add_digit_def)
qed simp

lemma is_digit_lower: "is_digit c \<or> c = 0x2E \<Longrightarrow> lower c = c \<and> c \<noteq> 0x2B \<and> c \<noteq> 0x2D \<and> c < 0x61"
  by (auto simp: is_digit_def lower_def)

lemma ParseFloat_decimal:
  assumes "list_all is_digit (ds @ fs)" "ds @ fs \<noteq> []"
  shows "ParseFloat (decimal_text neg ds fs)
    = float_of_fraction neg (decimal_value (ds @ fs)) (10 ^ length fs)"
proof -
  define t where "t = ds @ 0x2E # fs"
  have chars: "\<forall>c \<in> set t. is_digit c \<or> c = 0x2E" using assms(1) by (auto simp: t_def list_all_iff)
  have t: "t \<noteq> []" by (simp add: t_def)
  then have hd: "hd t \<in> set t" by simp
  have low: "lower c = c \<and> c \<noteq> 0x2B \<and> c \<noteq> 0x2D \<and> c < 0x61" if "c \<in> set t" for c
    using chars that is_digit_lower by blast
  have whole: "decimal_text neg ds fs = (if neg then 0x2D # t else t)" by (simp add: decimal_text_def t_def)
  have drop: "drop_sign (decimal_text neg ds fs) = t"
    using low [OF hd] t by (simp add: whole drop_sign_def)
  have minus: "(decimal_text neg ds fs \<noteq> [] \<and> hd (decimal_text neg ds fs) = 0x2D) = neg"
    using low [OF hd] t by (simp add: whole)
  have "map lower t = t" using low by (simp add: map_idI)
  moreover have "hd t \<noteq> of_char (CHR ''i'')" "hd t \<noteq> of_char (CHR ''n'')" using low [OF hd] by auto
  ultimately have "map lower t \<notin> {ascii ''inf'', ascii ''infinity''}" "map lower t \<noteq> ascii ''nan''"
    by (auto simp: ascii_def)
  then have special: "special_float (decimal_text neg ds fs) = None"
    unfolding special_float_def drop by (auto simp: whole ascii_def lower_def)
  have nohex: "\<not> (length t > 2 \<and> hd t = 0x30 \<and> lower (t ! 1) = 0x78)"
    using low [OF nth_mem, of 1] by auto
  have "scan_mantissa False t \<lparr>digits = 0, places = 0, sawdot = False, sawdigits = False, underscores = False\<rparr>
      = (\<lparr>digits = decimal_value (ds @ fs), places = length fs, sawdot = True, sawdigits = True, underscores = False\<rparr>, [])"
    using assms scan_mantissa_digits [of fs "[]"]
    by (auto simp: t_def scan_mantissa_digits decimal_value_def)
  then show ?thesis
    unfolding ParseFloat_def special option.case drop minus Let_def if_not_P [OF nohex]
    using nohex by (auto simp: read_exponent_def)
qed

lemma ParseFloat_is_double: "ParseFloat s = Inr (Finite neg m e) \<Longrightarrow> is_double m e"
proof -
  have "is_double m e" if "float_of_fraction neg' p q = Inr (Finite neg m e)" "0 < q" for neg' p q
    using float_nearest [OF that] by (auto simp: nearest_double_def)
  then show "ParseFloat s = Inr (Finite neg m e) \<Longrightarrow> is_double m e"
    by (fastforce simp: ParseFloat_def special_float_def Let_def split: option.splits prod.splits if_splits)
qed

section \<open>Storing a float32\<close>

definition is_single :: "nat \<Rightarrow> int \<Rightarrow> bool" where
  "is_single m e \<longleftrightarrow> m < 2 ^ 24 \<and> - 149 \<le> e \<and> e \<le> 104"

lemma exceeds_iff: "exceeds m e m' e' \<longleftrightarrow> real m' * 2 powi e' < real m * 2 powi e"
proof -
  have shift: "(2::real) powi y = 2 ^ nat (y - x) * 2 powi x" if "x \<le> y" for x y
    using that by (simp add: power_int_add [symmetric] power_int_of_nat [symmetric] del: power_int_of_nat)
  have nat: "(a::nat) < b * 2 ^ k \<longleftrightarrow> real a < real b * 2 ^ k" "b * 2 ^ k < (a::nat) \<longleftrightarrow> real b * 2 ^ k < real a" for a b k
    by (metis of_nat_less_iff of_nat_mult of_nat_numeral of_nat_power)+
  show ?thesis
  proof (cases "e' \<le> e")
    case True
    then show ?thesis
      unfolding exceeds_def shift [OF True] nat by (simp add: mult.assoc [symmetric] mult_less_cancel_right_pos)
  next
    case False
    then have "e \<le> e'" by simp
    then show ?thesis
      using False unfolding exceeds_def shift [OF \<open>e \<le> e'\<close>] nat
      by (simp add: mult.assoc [symmetric] mult_less_cancel_right_pos)
  qed
qed

lemma stored_single:
  assumes "\<not> OverflowFloat 32 (Finite neg m e)" "stored_float 32 (Finite neg m e) = Finite neg' m' e'"
  shows "is_single m' e'"
proof -
  obtain p q where pq: "in_units m 1 (- e) = (p, q)" by (cases "in_units m 1 (- e)")
  have q: "0 < q" and val: "real p / real q = real m * 2 powi e"
    using pq by (auto simp: in_units_def power_int_def field_simps split: if_splits)
  have rf: "round_fraction 24 (- 149) p q = (m', e')"
    using assms(2) by (auto simp: stored_float_def pq [simplified] split: prod.splits)
  have le: "real p / real q \<le> (2 ^ 24 - 1) * 2 ^ 104"
    using assms(1) by (simp add: OverflowFloat_def exceeds_iff val not_less power_int_def)
  define u where "u = unit_exp 24 (- 149) p q"
  obtain a b where ab: "in_units p q u = (a, b)" by (cases "in_units p q u")
  note pos = in_units_ratio [OF ab q]
  have e: "e' = (if round_div a b = 2 ^ 24 then u + 1 else u)"
    using rf ab by (simp add: round_fraction_def u_def [symmetric] Let_def split: if_splits)
  have "u \<le> 104"
  proof (cases "p = 0")
    case False
    show ?thesis
    proof (rule ccontr)
      assume "\<not> u \<le> 104"
      then have "(2::real) powi 128 \<le> 2 powi (u + 23)" by (intro power_int_increasing) simp_all
      also have "\<dots> \<le> real p / real q"
        using unit_exp_bounds(3) [of p q "- 149" 24] False q \<open>\<not> u \<le> 104\<close> by (simp add: u_def add.commute)
      finally show False using le by simp
    qed
  qed (simp add: u_def unit_exp_def)
  moreover have "round_div a b < 2 ^ 24" if "u = 104"
  proof -
    have "real a / real b * 2 ^ 104 \<le> (2 ^ 24 - 1) * 2 ^ 104"
      using le pos(2) by (simp only: that power_int_numeral)
    then have "real a / real b \<le> 2 ^ 24 - 1" by (rule mult_right_le_imp_le) simp
    then have "real a \<le> real ((2 ^ 24 - 1) * b)" using pos(1) by (simp add: field_simps)
    then have "a \<le> (2 ^ 24 - 1) * b" by (simp only: of_nat_le_iff)
    then have "round_div a b \<le> 2 ^ 24 - 1" using pos(1) by (intro round_div_mono_bound)
    then show ?thesis by simp
  qed
  ultimately have "e' \<le> 104" using e by (cases "u = 104") auto
  with round_fraction_format [OF rf _ q] show ?thesis by (simp add: is_single_def)
qed

section \<open>Integers\<close>

fun print_nat :: "nat \<Rightarrow> nat list" where
  "print_nat n = (if n < 10 then [0x30 + n] else print_nat (n div 10) @ [0x30 + n mod 10])"

declare print_nat.simps [simp del]

definition print_int :: "int \<Rightarrow> nat list" where
  "print_int i = (if i < 0 then 0x2D # print_nat (nat (- i)) else print_nat (nat i))"

lemma print_nat_digits: "print_nat n \<noteq> [] \<and> hd (print_nat n) \<notin> {0x2B, 0x2D}"
proof (induction n rule: print_nat.induct)
  case (1 n)
  then show ?case by (subst (1 2) print_nat.simps) (auto simp: hd_append)
qed

text \<open>A digit loop that takes the digits one by one reads back a printed number.\<close>

lemma read_print_nat:
  assumes step: "\<And>q d cs. d \<le> 9 \<Longrightarrow> 10 * q + d \<le> B \<Longrightarrow> f ((0x30 + d) # cs) q = f cs (10 * q + d)"
  shows "m \<le> B \<Longrightarrow> f (print_nat m @ cs) 0 = f cs m"
proof (induction m arbitrary: cs rule: print_nat.induct)
  case (1 m)
  show ?case
  proof (cases "m < 10")
    case True
    with step [of m 0 cs] "1.prems" show ?thesis by (subst print_nat.simps) simp
  next
    case False
    have le: "m div 10 \<le> B" using "1.prems" by (rule order_trans [OF div_le_dividend])
    have "f (print_nat m @ cs) 0 = f (print_nat (m div 10) @ [0x30 + m mod 10] @ cs) 0"
      using False by (subst print_nat.simps) simp
    also have "\<dots> = f ((0x30 + m mod 10) # cs) (m div 10)"
      using "1.IH" [OF False le, of "[0x30 + m mod 10] @ cs"] by simp
    also have "\<dots> = f cs (10 * (m div 10) + m mod 10)"
      using "1.prems" mod_less_divisor [of 10 m] by (intro step) simp_all
    finally show ?thesis by simp
  qed
qed

lemma scan_print_nat: "m \<le> 2 ^ 64 - 1 \<Longrightarrow> scan_uint (print_nat m @ cs) 0 = scan_uint cs m"
  by (rule read_print_nat [where B = "2 ^ 64 - 1"]) (auto simp: is_digit_def)

lemma ParseUint_print: "n \<le> 2 ^ 64 - 1 \<Longrightarrow> ParseUint (print_nat n) = Inr n"
  using scan_print_nat [of n "[]"] print_nat_digits [of n] by (simp add: ParseUint_def)

lemma ParseInt_print:
  assumes "- (2 ^ 63) \<le> i" "i < 2 ^ 63"
  shows "ParseInt (print_int i) = Inr i"
proof (cases "i < 0")
  case True
  have "nat (- i) \<le> 2 ^ 63" using assms by simp
  then have "ParseUint (print_nat (nat (- i))) = Inr (nat (- i))" by (intro ParseUint_print) simp
  with True \<open>nat (- i) \<le> 2 ^ 63\<close> show ?thesis by (simp add: ParseInt_def print_int_def)
next
  case False
  have "nat i < 2 ^ 63" using assms False by simp
  then have "ParseUint (print_nat (nat i)) = Inr (nat i)" by (intro ParseUint_print) simp
  with False \<open>nat i < 2 ^ 63\<close> print_nat_digits [of "nat i"] show ?thesis
    by (simp add: ParseInt_def print_int_def Let_def)
qed

section \<open>Durations\<close>

lemma duration_sum_range: "duration_sum s d = Inr r \<Longrightarrow> d \<le> 2 ^ 63 \<Longrightarrow> r \<le> 2 ^ 63"
proof (induction s d rule: duration_sum.induct)
  case (1 s d)
  then show ?case by (subst (asm) (2) duration_sum.simps) (auto split: if_splits sum.splits prod.splits)
qed

lemma ParseDuration_range:
  assumes "ParseDuration s = Inr d"
  shows "- (2 ^ 63) \<le> d \<and> d < 2 ^ 63"
proof -
  have "int r \<le> 2 ^ 63" if "duration_sum (drop_sign s) 0 = Inr r" for r
    using duration_sum_range [OF that] by simp
  with assms show ?thesis
    by (fastforce simp: ParseDuration_def Let_def split: if_splits sum.splits)
qed

lemma leadingInt_print:
  assumes "n \<le> 2 ^ 63" "rest = [] \<or> \<not> is_digit (hd rest)"
  shows "leadingInt (print_nat n @ rest) 0 = Some (n, rest)"
proof -
  have "leadingInt (print_nat n @ rest) 0 = leadingInt rest n"
    by (rule read_print_nat [where B = "2 ^ 63", OF _ assms(1)]) (auto simp: is_digit_def)
  with assms(2) show ?thesis by (cases rest) auto
qed

lemma print_nat_hd: "print_nat n \<noteq> []" "is_digit (hd (print_nat n))"
proof (induction n rule: print_nat.induct)
  case (1 n)
  { case 1 show ?case by (subst print_nat.simps) simp }
  { case 2 with 1 show ?case by (subst print_nat.simps) (auto simp: is_digit_def hd_append) }
qed

lemma duration_part_whole:
  assumes u: "unit_map u = Some unit" "list_all is_unit_char u" "u \<noteq> []"
    and n: "n \<le> 2 ^ 63 div unit" "n \<le> 2 ^ 63" and rest: "rest = [] \<or> is_digit (hd rest)"
  shows "duration_part (print_nat n @ u @ rest) = Inr (n * unit, rest)"
proof -
  note dig = print_nat_hd [of n]
  have hu: "is_unit_char (hd u)" using u(2,3) by (cases u) simp_all
  then have "leadingInt (print_nat n @ u @ rest) 0 = Some (n, u @ rest)"
    using u(3) n(2) by (intro leadingInt_print) (simp_all add: is_unit_char_def)
  moreover have "takeWhile is_unit_char (u @ rest) = u" "dropWhile is_unit_char (u @ rest) = rest"
    using u(2) rest by (cases rest; simp add: list_all_iff is_unit_char_def)+
  ultimately show ?thesis
    using dig hu u n by (simp add: duration_part_def Let_def is_unit_char_def hd_append not_less)
qed

lemma unit_facts:
  "unit_map (ascii ''h'') = Some 3600000000000" "unit_map (ascii ''m'') = Some 60000000000"
  "unit_map (ascii ''s'') = Some 1000000000" "unit_map (ascii ''ns'') = Some 1"
  "list_all is_unit_char (ascii ''h'')" "list_all is_unit_char (ascii ''m'')"
  "list_all is_unit_char (ascii ''s'')" "list_all is_unit_char (ascii ''ns'')"
  by (simp_all add: unit_map_def ascii_def is_unit_char_def is_digit_def)

lemma duration_sum_whole:
  assumes "unit_map u = Some unit" "list_all is_unit_char u" "u \<noteq> []" "0 < unit"
    and "d + n * unit \<le> 2 ^ 63" "rest = [] \<or> is_digit (hd rest)"
  shows "duration_sum (print_nat n @ u @ rest) d = duration_sum rest (d + n * unit)"
proof -
  have "n * unit \<le> 2 ^ 63" using assms(5) by simp
  then have "n \<le> 2 ^ 63 div unit" using assms(4) by (simp add: less_eq_div_iff_mult_less_eq)
  moreover from this have "n \<le> 2 ^ 63" by (rule order_trans) (rule div_le_dividend)
  ultimately have "duration_part (print_nat n @ u @ rest) = Inr (n * unit, rest)"
    using assms by (intro duration_part_whole) auto
  then show ?thesis
    using assms(5) print_nat_hd(1) [of n] by (subst duration_sum.simps) simp
qed

text \<open>A duration in hours, minutes, seconds and nanoseconds.\<close>

definition print_duration :: "int \<Rightarrow> nat list" where
  "print_duration d =
     (let n = nat \<bar>d\<bar>
      in (if d < 0 then [0x2D] else [])
         @ print_nat (n div 3600000000000) @ ascii ''h'' @ print_nat (n div 60000000000 mod 60) @ ascii ''m''
         @ print_nat (n div 1000000000 mod 60) @ ascii ''s'' @ print_nat (n mod 1000000000) @ ascii ''ns'')"

lemma duration_split:
  "n div 3600000000000 * 3600000000000 + n div 60000000000 mod 60 * 60000000000
     + n div 1000000000 mod 60 * 1000000000 + n mod 1000000000 = (n::nat)"
proof -
  have "n div 3600000000000 = n div 60000000000 div 60" "n div 60000000000 = n div 1000000000 div 60"
    by (simp_all add: div_mult2_eq [symmetric])
  then have "n div 3600000000000 * 3600000000000 + n div 60000000000 mod 60 * 60000000000
      = n div 60000000000 * 60000000000"
    "n div 60000000000 * 60000000000 + n div 1000000000 mod 60 * 1000000000 = n div 1000000000 * 1000000000"
    using div_mult_mod_eq [of "n div 60000000000" 60] div_mult_mod_eq [of "n div 1000000000" 60] by linarith+
  then show ?thesis using div_mult_mod_eq [of n 1000000000] by linarith
qed

lemma duration_sum_print:
  assumes "n \<le> 2 ^ 63"
  shows "duration_sum (print_nat (n div 3600000000000) @ ascii ''h'' @ print_nat (n div 60000000000 mod 60) @ ascii ''m''
     @ print_nat (n div 1000000000 mod 60) @ ascii ''s'' @ print_nat (n mod 1000000000) @ ascii ''ns'') 0 = Inr n"
proof -
  let ?h = "n div 3600000000000" and ?m = "n div 60000000000 mod 60" and ?s = "n div 1000000000 mod 60"
    and ?r = "n mod 1000000000"
  have sum: "?h * 3600000000000 + ?m * 60000000000 + ?s * 1000000000 + ?r = n" by (rule duration_split)
  have step: "duration_sum (print_nat k @ u @ rest) d = duration_sum rest (d + k * unit)"
    if "unit_map u = Some unit" "list_all is_unit_char u" "u \<noteq> []" "0 < unit" "d + k * unit \<le> n"
      "rest = [] \<or> is_digit (hd rest)" for k u rest d unit
    using that assms by (intro duration_sum_whole) simp_all
  have ne: "ascii ''h'' \<noteq> []" "ascii ''m'' \<noteq> []" "ascii ''s'' \<noteq> []" "ascii ''ns'' \<noteq> []"
    by (simp_all add: ascii_def)
  note hd = print_nat_hd(2) [of ?m] print_nat_hd(2) [of ?s] print_nat_hd(2) [of ?r]
  have last: "duration_sum (print_nat ?r @ ascii ''ns'') d = duration_sum [] (d + ?r)" if "d + ?r \<le> n" for d
    using step [of "ascii ''ns''" 1 d ?r "[]"] that unit_facts ne by simp
  have "duration_sum [] n = Inr n" by (subst duration_sum.simps) simp
  with sum show ?thesis
    by (simp add: step [OF unit_facts(1,5) ne(1)] step [OF unit_facts(2,6) ne(2)] step [OF unit_facts(3,7) ne(3)]
        last hd print_nat_hd(1))
qed

lemma ParseDuration_print:
  assumes "- (2 ^ 63) \<le> d" "d < 2 ^ 63"
  shows "ParseDuration (print_duration d) = Inr d"
proof -
  define n where "n = nat \<bar>d\<bar>"
  define t where "t = print_nat (n div 3600000000000) @ ascii ''h'' @ print_nat (n div 60000000000 mod 60) @ ascii ''m''
     @ print_nat (n div 1000000000 mod 60) @ ascii ''s'' @ print_nat (n mod 1000000000) @ ascii ''ns''"
  have p: "print_duration d = (if d < 0 then 0x2D # t else t)" by (simp add: print_duration_def n_def t_def Let_def)
  have "is_digit (hd t)" "t \<noteq> []" using print_nat_hd by (simp_all add: t_def)
  moreover have "t \<noteq> [0x30]" by (simp add: t_def ascii_def append_eq_Cons_conv)
  moreover have "duration_sum t 0 = Inr n"
    unfolding t_def using assms by (intro duration_sum_print) (simp add: n_def)
  ultimately show ?thesis
    using assms by (auto simp: ParseDuration_def p drop_sign_def is_digit_def n_def Let_def)
qed

end
