(* ===== verification/ConfigSpec.thy ===== *)
theory ConfigSpec
  imports Config GoParseSpec
begin

text \<open>
  Properties of the configuration loader: the values it writes have their field's type and range, the
  parsers invert printing, \<open>populate\<close> sets exactly the leaves it should from the value with the
  highest precedence and touches nothing else, it stops at the first leaf that cannot be set, and it
  returns whenever the struct types do not refer to themselves.
\<close>

section \<open>Types\<close>

fun float_ok :: "nat \<Rightarrow> go_float \<Rightarrow> bool" where
  "float_ok bits (Finite neg m e) = (if bits = 32 then is_single m e else is_double m e)"
| "float_ok bits x = True"

fun has_type :: "gotype \<Rightarrow> gvalue \<Rightarrow> bool" where
  "has_type TString (VString s) = True"
| "has_type TDuration (VInt d) = (- (2 ^ 63) \<le> d \<and> d < 2 ^ 63)"
| "has_type (TInt bits) (VInt i) = (- (2 ^ (bits - 1)) \<le> i \<and> i < 2 ^ (bits - 1))"
| "has_type (TUint bits) (VUint n) = (n < 2 ^ bits)"
| "has_type TBool (VBool b) = True"
| "has_type (TFloat bits) (VFloat x) = float_ok bits x"
| "has_type (TSlice t) (VSlice vs) = list_all (has_type t) vs"
| "has_type t v = False"

lemma set_elems_all:
  assumes "set_elems f parts acc = Inr xs" "list_all Q acc" "\<And>p x. f p = Inr x \<Longrightarrow> Q x"
  shows "list_all Q xs"
  using assms
proof (induction f parts acc rule: set_elems.induct)
  case (2 f part parts acc)
  then show ?case by (auto simp: Let_def split: if_splits sum.splits)
qed simp

lemma stored_float_ok:
  assumes "ParseFloat raw = Inr x" "\<not> OverflowFloat bits x"
  shows "float_ok bits (stored_float bits x)"
proof (cases x)
  case (Finite neg m e)
  show ?thesis
  proof (cases "bits = 32")
    case True
    have "\<exists>m' e'. stored_float 32 (Finite neg m e) = Finite neg m' e'"
      by (simp add: stored_float_def split: prod.split)
    with assms Finite True stored_single show ?thesis by fastforce
  next
    case False
    then show ?thesis using ParseFloat_is_double assms(1) Finite by (auto simp: stored_float_def)
  qed
qed (simp_all add: stored_float_def)

lemma setField_typed: "setField t raw = Inr v \<Longrightarrow> has_type t v"
proof (induction t arbitrary: raw v)
  case (TSlice t)
  then obtain vs where vs: "set_elems (\<lambda>part. setField t part) (split_comma raw) [] = Inr vs" "v = VSlice vs"
    by (auto split: sum.splits)
  have "list_all (has_type t) vs"
    by (rule set_elems_all [OF vs(1)]) (simp_all add: TSlice.IH)
  with vs(2) show ?case by simp
next
  case TDuration
  then show ?case using ParseDuration_range by (auto split: sum.splits)
next
  case (TFloat bits)
  then show ?case using stored_float_ok by (auto split: sum.splits if_splits)
qed (auto simp: OverflowInt_def OverflowUint_def split: sum.splits if_splits)

section \<open>Leaves\<close>

text \<open>
  The leaves \<open>populate\<close> reaches in at most \<open>n\<close> pointers, in order, with their values; a nil pointer
  counts as its zero pointee. The rest of the struct are the fields that cannot be set.
\<close>

function active :: "nat \<Rightarrow> zero_values \<Rightarrow> field list \<Rightarrow> (leaf \<times> gvalue) list"
  and active_field :: "nat \<Rightarrow> zero_values \<Rightarrow> field \<Rightarrow> (leaf \<times> gvalue) list" where
  "active n Z [] = []"
| "active n Z (f # fs) = active_field n Z f @ active n Z fs"
| "active_field n Z (Plain l can_set v) = (if can_set then [(l, v)] else [])"
| "active_field n Z (Nested can_set fs) = (if can_set then active n Z fs else [])"
| "active_field n Z (Pointer can_set T p) =
     (if \<not> can_set then []
      else (case n of 0 \<Rightarrow> [] | Suc n' \<Rightarrow> active n' Z (case p of None \<Rightarrow> Z T | Some fs \<Rightarrow> fs)))"
  by pat_completeness auto
termination
  by (relation "measures [\<lambda>x. case x of Inl (n, _) \<Rightarrow> n | Inr (n, _) \<Rightarrow> n,
      \<lambda>x. case x of Inl (_, _, fs) \<Rightarrow> size_list size fs | Inr (_, _, f) \<Rightarrow> size f]") auto

function frozen :: "nat \<Rightarrow> zero_values \<Rightarrow> field list \<Rightarrow> field list"
  and frozen_field :: "nat \<Rightarrow> zero_values \<Rightarrow> field \<Rightarrow> field list" where
  "frozen n Z [] = []"
| "frozen n Z (f # fs) = frozen_field n Z f @ frozen n Z fs"
| "frozen_field n Z (Plain l can_set v) = (if can_set then [] else [Plain l can_set v])"
| "frozen_field n Z (Nested can_set fs) = (if can_set then frozen n Z fs else [Nested can_set fs])"
| "frozen_field n Z (Pointer can_set T p) =
     (if \<not> can_set then [Pointer can_set T p]
      else (case n of 0 \<Rightarrow> [] | Suc n' \<Rightarrow> frozen n' Z (case p of None \<Rightarrow> Z T | Some fs \<Rightarrow> fs)))"
  by pat_completeness auto
termination
  by (relation "measures [\<lambda>x. case x of Inl (n, _) \<Rightarrow> n | Inr (n, _) \<Rightarrow> n,
      \<lambda>x. case x of Inl (_, _, fs) \<Rightarrow> size_list size fs | Inr (_, _, f) \<Rightarrow> size f]") auto

text \<open>Where a leaf's value comes from: its variable, if it is tagged and set, else a non-empty default.\<close>

definition source_of :: "environment \<Rightarrow> leaf \<Rightarrow> nat list option" where
  "source_of E l =
     (if leaf_env l = [] then None
      else if E (leaf_env l) \<noteq> None then E (leaf_env l)
      else if leaf_default l \<noteq> [] then Some (leaf_default l) else None)"

definition leaf_set :: "environment \<Rightarrow> leaf \<times> gvalue \<Rightarrow> leaf \<times> gvalue \<Rightarrow> bool" where
  "leaf_set E a b \<longleftrightarrow> fst b = fst a \<and>
     (case source_of E (fst a) of
        None \<Rightarrow> snd b = snd a
      | Some raw \<Rightarrow> setField (leaf_type (fst a)) raw = Inr (snd b))"

definition leaf_fails :: "environment \<Rightarrow> leaf \<Rightarrow> gerror \<Rightarrow> bool" where
  "leaf_fails E l e \<longleftrightarrow> (\<exists>raw err. source_of E l = Some raw
     \<and> setField (leaf_type l) raw = Inl err \<and> e = set_error l err)"

lemma raw_value_source: "raw_value E l = source_of E l"
  by (auto simp: raw_value_def source_of_def split: option.split)

text \<open>What a pass over leaves does to them, from its error.\<close>

definition pass :: "environment \<Rightarrow> gerror option \<Rightarrow> (leaf \<times> gvalue) list \<Rightarrow> (leaf \<times> gvalue) list \<Rightarrow> bool" where
  "pass E e xs ys \<longleftrightarrow>
     (case e of
        None \<Rightarrow> list_all2 (leaf_set E) xs ys
      | Some err \<Rightarrow> (\<exists>pre pre' l v post. xs = pre @ (l, v) # post \<and> ys = pre' @ (l, v) # post
          \<and> list_all2 (leaf_set E) pre pre' \<and> leaf_fails E l err))"

lemma pass_Nil: "pass E None [] []"
  by (simp add: pass_def)

lemma pass_append:
  "pass E None xs ys \<Longrightarrow> pass E e xs' ys' \<Longrightarrow> pass E e (xs @ xs') (ys @ ys')"
proof (cases e)
  case (Some err)
  assume "pass E None xs ys" "pass E e xs' ys'"
  then obtain pre pre' l v post where "list_all2 (leaf_set E) xs ys" "xs' = pre @ (l, v) # post"
    "ys' = pre' @ (l, v) # post" "list_all2 (leaf_set E) pre pre'" "leaf_fails E l err"
    by (auto simp: pass_def Some)
  then show ?thesis
    unfolding pass_def Some option.case
    by (intro exI [of _ "xs @ pre"] exI [of _ "ys @ pre'"] exI [of _ l] exI [of _ v] exI [of _ post])
       (auto intro: list_all2_appendI)
qed (auto simp: pass_def intro: list_all2_appendI)

lemma pass_stop: "pass E (Some err) xs ys \<Longrightarrow> pass E (Some err) (xs @ zs) (ys @ zs)"
  by (force simp: pass_def)

text \<open>\<open>populate\<close> unfolded where it returns.\<close>

lemma populate_Cons_cases:
  assumes "populate n Z E (f # fs) = Some (e, r)"
  obtains (stop) err f' where "populate_field n Z E f = Some (Some err, f')" "e = Some err" "r = f' # fs"
    | (go_on) f' fs' where "populate_field n Z E f = Some (None, f')" "populate n Z E fs = Some (e, fs')" "r = f' # fs'"
  using assms by (auto split: option.splits prod.splits)

lemma populate_Pointer_cases:
  assumes "populate_field n Z E (Pointer True T p) = Some (e, r)"
  obtains n' fs' where "n = Suc n'" "r = Pointer True T (Some fs')"
    "populate n' Z E (case p of None \<Rightarrow> Z T | Some fs \<Rightarrow> fs) = Some (e, fs')"
  using assms by (auto split: nat.splits option.splits prod.splits)

lemma populate_pass:
  "populate n Z E fs = Some (e, fs') \<Longrightarrow>
     pass E e (active n Z fs) (active n Z fs') \<and> frozen n Z fs' = frozen n Z fs"
  "populate_field n Z E f = Some (e, f') \<Longrightarrow>
     pass E e (active_field n Z f) (active_field n Z f') \<and> frozen_field n Z f' = frozen_field n Z f"
proof (induction n Z E fs and n Z E f arbitrary: e fs' and e f' rule: populate_populate_field.induct)
  case (2 n Z E f fs)
  from "2.prems" show ?case
  proof (cases rule: populate_Cons_cases)
    case (stop err f')
    with "2.IH"(1) [OF stop(1)] show ?thesis by (simp add: pass_stop)
  next
    case (go_on f' fs')
    with "2.IH"(1) [OF go_on(1)] "2.IH"(2) [OF go_on(1) _ _ go_on(2)] show ?thesis by (auto intro: pass_append)
  qed
next
  case (3 n Z E l can_set v)
  then show ?case
    by (fastforce simp: pass_def leaf_set_def leaf_fails_def raw_value_source split: if_splits option.splits sum.splits)
next
  case (5 n Z E can_set T p)
  show ?case
  proof (cases can_set)
    case True
    then have cs: "can_set = True" by simp
    from "5.prems" [unfolded cs] obtain n' r where r: "n = Suc n'" "f' = Pointer True T (Some r)"
      "populate n' Z E (case p of None \<Rightarrow> Z T | Some fs \<Rightarrow> fs) = Some (e, r)"
      by (rule populate_Pointer_cases)
    from "5.IH" [OF _ r(1) r(3)] True r show ?thesis by simp
  qed (use "5.prems" in \<open>auto simp: pass_Nil\<close>)
qed (auto simp: pass_Nil split: if_splits option.splits prod.splits)

section \<open>Termination\<close>

lemma populate_more_fuel:
  "populate n Z E fs = Some r \<Longrightarrow> n \<le> m \<Longrightarrow> populate m Z E fs = Some r"
  "populate_field n Z E f = Some r' \<Longrightarrow> n \<le> m \<Longrightarrow> populate_field m Z E f = Some r'"
proof (induction n Z E fs and n Z E f arbitrary: m r and m r' rule: populate_populate_field.induct)
  case (2 n Z E f fs)
  obtain e rs where r: "r = (e, rs)" by (cases r)
  from "2.prems"(1) [unfolded r] show ?case
  proof (cases rule: populate_Cons_cases)
    case (stop err f')
    with "2.IH"(1) [OF stop(1) "2.prems"(2)] r show ?thesis by simp
  next
    case (go_on f' fs')
    with "2.IH"(1) [OF go_on(1) "2.prems"(2)] "2.IH"(2) [OF go_on(1) _ _ go_on(2) "2.prems"(2)] r
    show ?thesis by simp
  qed
next
  case (4 n Z E can_set fs)
  show ?case
  proof (cases can_set)
    case True
    with "4.prems"(1) obtain e rs where rs: "populate n Z E fs = Some (e, rs)" "r' = (e, Nested can_set rs)"
      by (simp split: option.splits prod.splits)
    from "4.IH" [OF _ rs(1) "4.prems"(2)] True rs(2) show ?thesis by simp
  qed (use "4.prems" in simp)
next
  case (5 n Z E can_set T p)
  show ?case
  proof (cases can_set)
    case True
    obtain e fr where r': "r' = (e, fr)" by (cases r')
    from True have cs: "can_set = True" by simp
    from "5.prems"(1) [unfolded cs r'] obtain n' fs' where n': "n = Suc n'" "fr = Pointer True T (Some fs')"
      "populate n' Z E (case p of None \<Rightarrow> Z T | Some fs \<Rightarrow> fs) = Some (e, fs')"
      by (rule populate_Pointer_cases)
    from "5.prems"(2) n'(1) obtain m' where m': "m = Suc m'" "n' \<le> m'" by (cases m) auto
    from "5.IH" [OF _ n'(1,3) m'(2)] True n' m' r' show ?thesis by simp
  qed (use "5.prems" in auto)
qed auto

text \<open>The types whose zero values \<open>populate\<close> allocates for the nil pointers of a struct.\<close>

fun allocs :: "field list \<Rightarrow> string list" and allocs_field :: "field \<Rightarrow> string list" where
  "allocs [] = []"
| "allocs (f # fs) = allocs_field f @ allocs fs"
| "allocs_field (Plain l can_set v) = []"
| "allocs_field (Nested can_set fs) = (if can_set then allocs fs else [])"
| "allocs_field (Pointer can_set T None) = (if can_set then [T] else [])"
| "allocs_field (Pointer can_set T (Some fs)) = (if can_set then allocs fs else [])"

lemma populate_returns:
  "(\<And>T. T \<in> set (allocs fs) \<Longrightarrow> \<exists>n. populate n Z E (Z T) \<noteq> None) \<Longrightarrow> \<exists>n. populate n Z E fs \<noteq> None"
  "(\<And>T. T \<in> set (allocs_field f) \<Longrightarrow> \<exists>n. populate n Z E (Z T) \<noteq> None) \<Longrightarrow> \<exists>n. populate_field n Z E f \<noteq> None"
proof (induction fs and f rule: allocs_allocs_field.induct)
  case (2 f fs)
  from "2.IH"(1) "2.prems" obtain n where n: "populate_field n Z E f \<noteq> None" by auto
  from "2.IH"(2) "2.prems" obtain k where k: "populate k Z E fs \<noteq> None" by auto
  from n k obtain r rs where "populate_field (max n k) Z E f = Some r" "populate (max n k) Z E fs = Some rs"
    using populate_more_fuel by (metis max.cobounded1 max.cobounded2 option.exhaust)
  then have "populate (max n k) Z E (f # fs) \<noteq> None" by (auto split: option.split prod.split)
  then show ?case by blast
next
  case (4 can_set fs)
  show ?case
  proof (cases can_set)
    case True
    with 4 obtain n where "populate n Z E fs \<noteq> None" by auto
    then have "populate_field n Z E (Nested can_set fs) \<noteq> None" by (auto split: option.split prod.split)
    then show ?thesis by blast
  qed simp
next
  case (5 can_set T)
  show ?case
  proof (cases can_set)
    case True
    with 5 obtain n where "populate n Z E (Z T) \<noteq> None" by auto
    then have "populate_field (Suc n) Z E (Pointer can_set T None) \<noteq> None" by (auto split: option.split prod.split)
    then show ?thesis by blast
  qed simp
next
  case (6 can_set T fs)
  show ?case
  proof (cases can_set)
    case True
    with 6 obtain n where "populate n Z E fs \<noteq> None" by auto
    then have "populate_field (Suc n) Z E (Pointer can_set T (Some fs)) \<noteq> None"
      by (auto split: option.split prod.split)
    then show ?thesis by blast
  qed simp
qed (simp_all split: option.split sum.split)

text \<open>Struct types that do not lead back to themselves have a rank.\<close>

definition ranked :: "zero_values \<Rightarrow> (string \<Rightarrow> nat) \<Rightarrow> bool" where
  "ranked Z rank \<longleftrightarrow> (\<forall>T. list_all (\<lambda>T'. rank T' < rank T) (allocs (Z T)))"

lemma ranked_returns: "ranked Z rank \<Longrightarrow> \<exists>n. populate n Z E (Z T) \<noteq> None"
proof (induction "rank T" arbitrary: T rule: less_induct)
  case less
  show ?case
  proof (rule populate_returns(1))
    fix T' assume "T' \<in> set (allocs (Z T))"
    with less.prems have "rank T' < rank T" by (simp add: ranked_def list_all_iff)
    then show "\<exists>n. populate n Z E (Z T') \<noteq> None" by (rule less.hyps [OF _ less.prems])
  qed
qed

text \<open>A type that has a pointer to itself, after fields that can be set.\<close>

lemma self_pointer_diverges:
  assumes "Z T = pre @ Pointer True T None # post" "\<And>n. \<exists>r. populate n Z E pre = Some (None, r) \<or> populate n Z E pre = None"
  shows "populate n Z E (Z T) = None"
proof (induction n)
  have append: "populate n Z E (xs @ ys) = None"
    if "\<exists>r. populate n Z E xs = Some (None, r) \<or> populate n Z E xs = None" "populate n Z E ys = None" for n xs ys
    using that by (induction xs) (auto split: option.splits prod.splits)
  { case 0 show ?case using append [OF assms(2)] by (simp add: assms(1)) }
  { case (Suc n) then show ?case using append [OF assms(2)] by (simp add: assms(1)) }
qed

section \<open>Properties\<close>

text \<open>
  C7: \<open>populate\<close> sets exactly the leaves it should, in order. The leaves it reaches through settable
  fields, nested structs and pointers, allocated if nil, are set from their environment variable if it
  exists, else from a non-empty default, else left alone; on success this holds of all of them; on an
  error it holds of those before one leaf, whose value cannot be parsed, which the error names, and
  every leaf from that one on is as it was. The fields that cannot be set are as they were.
\<close>

theorem populate_sets_leaves:
  assumes "populate n Z E fs = Some (e, fs')"
  shows "frozen n Z fs' = frozen n Z fs \<and>
    (case e of
       None \<Rightarrow> list_all2 (leaf_set E) (active n Z fs) (active n Z fs')
     | Some err \<Rightarrow> \<exists>pre pre' l v post. active n Z fs = pre @ (l, v) # post
         \<and> active n Z fs' = pre' @ (l, v) # post \<and> list_all2 (leaf_set E) pre pre' \<and> leaf_fails E l err)"
  using populate_pass(1) [OF assms] by (cases e) (simp_all add: pass_def)

definition toy_env :: environment where
  "toy_env k = (if k = ''PORTS'' then Some (ascii ''80, -7,'') else if k = ''NAME'' then Some [] else None)"

definition toy_leaf :: "string \<Rightarrow> string \<Rightarrow> string \<Rightarrow> gotype \<Rightarrow> leaf" where
  "toy_leaf name env_key dflt t = \<lparr>leaf_name = name, leaf_env = env_key, leaf_default = ascii dflt, leaf_type = t\<rparr>"

definition toy_types :: zero_values where
  "toy_types T = (if T = ''Server'' then [Plain (toy_leaf ''Port'' ''PORT'' ''8080'' (TInt 16)) True (VInt 0)] else [])"

theorem populate_sets_leaves_witness:
  "list_all2 (leaf_set toy_env)
     [(toy_leaf ''Name'' ''NAME'' ''anon'' TString, VString [1]), (toy_leaf ''Port'' ''PORT'' ''8080'' (TInt 16), VInt 0)]
     [(toy_leaf ''Name'' ''NAME'' ''anon'' TString, VString []), (toy_leaf ''Port'' ''PORT'' ''8080'' (TInt 16), VInt 8080)]"
proof -
  have "populate 1 toy_types toy_env
      [Plain (toy_leaf ''Name'' ''NAME'' ''anon'' TString) True (VString [1]), Pointer True ''Server'' None]
    = Some (None, [Plain (toy_leaf ''Name'' ''NAME'' ''anon'' TString) True (VString []),
        Pointer True ''Server'' (Some [Plain (toy_leaf ''Port'' ''PORT'' ''8080'' (TInt 16)) True (VInt 8080)])])"
    by (simp add: toy_types_def toy_env_def toy_leaf_def raw_value_def ascii_def ParseInt_def ParseUint_def
        is_digit_def OverflowInt_def)
  from populate_sets_leaves [OF this] show ?thesis by (simp add: toy_types_def)
qed

text \<open>
  C24: \<open>populate\<close> returns, and what it returns does not depend on the fuel, whenever no struct type leads
  back to itself through pointers it would allocate. The rank of a type bounds the allocations.
\<close>

theorem populate_terminates:
  assumes "ranked Z rank"
  shows "\<exists>n r. \<forall>m \<ge> n. populate m Z E fs = Some r"
proof -
  from populate_returns(1) ranked_returns [OF assms] obtain n r where "populate n Z E fs = Some r" by blast
  with populate_more_fuel(1) show ?thesis by blast
qed

theorem populate_terminates_witness:
  "\<exists>n r. \<forall>m \<ge> n. populate m toy_types toy_env [Pointer True ''Server'' None, Pointer False ''Loop'' None] = Some r"
proof -
  have "ranked toy_types (\<lambda>T. 0)" by (simp add: ranked_def toy_types_def)
  then show ?thesis by (rule populate_terminates)
qed

text \<open>
  C40: a struct type with a settable pointer to itself cannot be loaded. If the fields before the
  pointer can be set, \<open>Load\<close> allocates and follows such pointers without end, whatever the fuel.
\<close>

theorem self_referential_type_never_loads:
  assumes "Z T = map (\<lambda>(l, v). Plain l True v) leaves @ Pointer True T None # post"
    and "\<And>l v. (l, v) \<in> set leaves \<Longrightarrow> \<not> (\<exists>e. leaf_fails E l e)"
  shows "Load validate n Z E (Pointer_to_struct (Z T)) = None"
proof -
  have "\<exists>r. populate n Z E (map (\<lambda>(l, v). Plain l True v) ls) = Some (None, r)"
    if "\<And>l v. (l, v) \<in> set ls \<Longrightarrow> \<not> (\<exists>e. leaf_fails E l e)" for n ls
    using that by (induction ls) (fastforce simp: leaf_fails_def raw_value_source split: option.splits sum.splits)+
  then have "populate n Z E (Z T) = None"
    using assms by (intro self_pointer_diverges) blast+
  then show ?thesis by (simp add: Load_def)
qed

definition node_types :: zero_values where
  "node_types T = [Plain (toy_leaf ''Value'' ''VALUE'' ''1'' (TInt 64)) True (VInt 0), Pointer True ''Node'' None]"

theorem self_referential_type_never_loads_witness:
  "Load (\<lambda>_. None) 1000 node_types toy_env (Pointer_to_struct (node_types ''Node'')) = None"
  by (rule self_referential_type_never_loads
      [of _ _ "[(toy_leaf ''Value'' ''VALUE'' ''1'' (TInt 64), VInt 0)]" "[]"])
     (auto simp: node_types_def leaf_fails_def source_of_def toy_leaf_def toy_env_def ascii_def
       ParseInt_def ParseUint_def is_digit_def OverflowInt_def)

text \<open>
  C35: no value is silently truncated. Whatever the text, a value \<open>setField\<close> accepts has the field's
  type and is in its range: an integer field of \<open>b\<close> bits never gets a number outside it, a duration is
  an int64, a float is a double or, in a field of 32 bits, a single; through slices too.
\<close>

theorem set_field_in_range:
  assumes "setField t raw = Inr v"
  shows "has_type t v"
  using assms by (rule setField_typed)

theorem set_field_in_range_witness:
  "has_type (TSlice (TInt 8)) (VSlice [VInt 80, VInt (- 7)])"
proof -
  have "TrimSpace [56, 48] = [56, 48]" "TrimSpace [32, 45, 55] = [45, 55]" "TrimSpace [] = []"
    using TrimSpace_encode [of "[56, 48]"] TrimSpace_encode [of "[32, 45, 55]"] TrimSpace_encode [of "[]"]
    by (simp_all add: EncodeRune_def valid_rune_def surrogate_def IsSpace_def)
  then have "setField (TSlice (TInt 8)) (ascii ''80, -7,'') = Inr (VSlice [VInt 80, VInt (- 7)])"
    by (simp add: ascii_def ParseInt_def ParseUint_def is_digit_def OverflowInt_def)
  from set_field_in_range [OF this] show ?thesis .
qed

text \<open>
  C36: printing and loading a number is a round trip. The decimal form of any int64 loads into an integer
  field of \<open>b\<close> bits as the number itself if the field can hold it, and is rejected as an overflow if
  not; and the text that gives any int64 number of nanoseconds in hours, minutes, seconds and
  nanoseconds loads into a duration field as exactly that number, the least one included, whose
  magnitude is no int64.
\<close>

theorem number_fields_roundtrip:
  assumes "- (2 ^ 63) \<le> i" "i < 2 ^ 63"
  shows "setField (TInt bits) (print_int i) =
      (if - (2 ^ (bits - 1)) \<le> i \<and> i < 2 ^ (bits - 1) then Inr (VInt i) else Inl (overflow_error ''integer'' (print_int i)))
    \<and> setField TDuration (print_duration i) = Inr (VInt i)"
  by (simp add: ParseInt_print [OF assms] ParseDuration_print [OF assms] OverflowInt_def)

theorem number_fields_roundtrip_witness:
  "setField (TInt 8) (print_int 128) = Inl (overflow_error ''integer'' (print_int 128))
   \<and> setField TDuration (print_duration (- (2 ^ 63))) = Inr (VInt (- (2 ^ 63)))"
  using number_fields_roundtrip [of 128 8] number_fields_roundtrip [of "- (2 ^ 63)" 8] by simp

text \<open>
  C25: a float64 field gets the double nearest to the decimal in its text. For any digits before and
  after the point, and either sign, the value stored is a finite double and no finite double is
  nearer; the text is rejected exactly if the decimal is half a step or more above the largest double.
\<close>

theorem float_field_nearest:
  assumes "list_all is_digit (ds @ fs)" "ds @ fs \<noteq> []"
  shows "case setField (TFloat 64) (decimal_text neg ds fs) of
      Inr v \<Rightarrow> \<exists>y. v = VFloat y \<and>
        nearest_double y ((if neg then - 1 else 1) * (real (decimal_value (ds @ fs)) / 10 ^ length fs))
    | Inl err \<Rightarrow> err = ErrRange \<and> (2 ^ 54 - 1) * 2 ^ 970 \<le> real (decimal_value (ds @ fs)) / 10 ^ length fs"
proof (cases "float_of_fraction neg (decimal_value (ds @ fs)) (10 ^ length fs)")
  case (Inl err)
  then have "err = ErrRange" by (simp add: float_of_fraction_def split: prod.splits if_splits)
  with Inl float_range_iff [of "10 ^ length fs" neg "decimal_value (ds @ fs)"] show ?thesis
    by (simp add: ParseFloat_decimal [OF assms])
next
  case (Inr y)
  then obtain m e where "y = Finite neg m e" by (auto simp: float_of_fraction_def split: prod.splits if_splits)
  then have "stored_float 64 y = y" by (simp add: stored_float_def)
  with Inr float_nearest [OF Inr] show ?thesis
    by (simp add: ParseFloat_decimal [OF assms] OverflowFloat_def)
qed

theorem float_field_nearest_witness:
  "\<exists>y. setField (TFloat 64) (ascii ''-0.1'') = Inr (VFloat y) \<and> nearest_double y (- 1 / 10)"
proof -
  have shape: "decimal_text True (ascii ''0'') (ascii ''1'') = ascii ''-0.1''"
    by (simp add: decimal_text_def ascii_def)
  have val: "setField (TFloat 64) (ascii ''-0.1'') = Inr (VFloat (Finite True 7205759403792794 (- 56)))"
    unfolding shape [symmetric]
    by (simp add: ParseFloat_decimal is_digit_def ascii_def decimal_value_def float_of_fraction_def
        round_fraction_def unit_exp_def bit_count.simps in_units_def round_div_def OverflowFloat_def stored_float_def)
  show ?thesis
    using float_field_nearest [of "ascii ''0''" "ascii ''1''" True]
    unfolding shape val by (simp add: is_digit_def ascii_def decimal_value_def)
qed

text \<open>
  A float32 field is rounded twice. The text \<open>1.000000059604644775390625000001\<close> lies above the middle
  between 1 and the next single, so that single is the nearest; the loader parses to a double first,
  which is the middle, and stores 1.
\<close>

theorem float32_rounded_twice:
  "setField (TFloat 32) (ascii ''1.000000059604644775390625000001'') = Inr (VFloat (Finite False (2 ^ 23) (- 23)))
   \<and> round_fraction 24 (- 149) 1000000059604644775390625000001 (10 ^ 30) = (2 ^ 23 + 1, - 23)"
proof -
  have "ascii ''1.000000059604644775390625000001''
      = decimal_text False (ascii ''1'') (ascii ''000000059604644775390625000001'')"
    by (simp add: decimal_text_def ascii_def)
  then have parse: "ParseFloat (ascii ''1.000000059604644775390625000001'')
      = float_of_fraction False 1000000059604644775390625000001 (10 ^ 30)"
    by (simp add: ParseFloat_decimal is_digit_def ascii_def decimal_value_def)
  have double: "round_fraction 53 (- 1074) 1000000059604644775390625000001 (10 ^ 30) = (4503599895805952, - 52)"
    and single: "round_fraction 24 (- 149) 1000000059604644775390625000001 (10 ^ 30) = (2 ^ 23 + 1, - 23)"
    and again: "round_fraction 24 (- 149) 4503599895805952 (2 ^ 52) = (2 ^ 23, - 23)"
    by (simp_all add: round_fraction_def unit_exp_def bit_count.simps in_units_def round_div_def)
  have "stored_float 32 (Finite False 4503599895805952 (- 52)) = Finite False (2 ^ 23) (- 23)"
    using again by (simp add: stored_float_def in_units_def)
  moreover have "\<not> OverflowFloat 32 (Finite False 4503599895805952 (- 52))"
    by (simp add: OverflowFloat_def exceeds_def)
  moreover have "float_of_fraction False 1000000059604644775390625000001 (10 ^ 30)
      = Inr (Finite False 4503599895805952 (- 52))"
    unfolding float_of_fraction_def double by simp
  ultimately show ?thesis using single by (simp add: parse)
qed

text \<open>
  An empty environment variable overrides the default. A string field whose variable is set to the
  empty string loads the empty string, whatever its \<open>envDefault\<close>, although the documentation of \<open>Load\<close>
  says the default is used when the variable is absent or empty.
\<close>

theorem empty_variable_overrides_default:
  assumes "E (leaf_env l) = Some []" "leaf_env l \<noteq> []" "leaf_type l = TString"
  shows "populate n Z E [Plain l True v] = Some (None, [Plain l True (VString [])])"
  using assms by (simp add: raw_value_def)

theorem empty_variable_overrides_default_witness:
  "populate 0 toy_types toy_env [Plain (toy_leaf ''Name'' ''NAME'' ''anon'' TString) True (VString [1])]
   = Some (None, [Plain (toy_leaf ''Name'' ''NAME'' ''anon'' TString) True (VString [])])"
  by (rule empty_variable_overrides_default) (simp_all add: toy_env_def toy_leaf_def)

text \<open>
  \<open>Load\<close> never lets an invalid configuration through: it returns nil exactly if its argument is a
  pointer to a struct, every leaf could be set and the validator accepts the result.
\<close>

theorem load_nil_iff:
  "Load validate n Z E cfg = Some (None, cfg') \<longleftrightarrow>
     (\<exists>fs fs'. cfg = Pointer_to_struct fs \<and> cfg' = Pointer_to_struct fs' \<and> populate n Z E fs = Some (None, fs')
        \<and> validate fs' = None \<and> list_all2 (leaf_set E) (active n Z fs) (active n Z fs'))"
proof (cases cfg)
  case (Pointer_to_struct fs)
  then show ?thesis
    using populate_pass(1) [of n Z E fs None]
    by (auto simp: Load_def pass_def split: option.splits prod.splits)
qed (auto simp: Load_def)

end
