(* ===== verification/Spec2Isabelle.thy ===== *)
theory Spec2Isabelle
  imports Prelude Result BreakerStorm RetrySpec CacheAnswers CacheHeap CacheBackends ResilienceSpec
    AsyncSpec QueueSpec GrpcSpec HttpSpec Shutdown Jsonutil Db Telemetry Guard ConfigSpec
begin

text \<open>
  GopherCore, a toolkit of fourteen Go packages for the infrastructure of a service: results, circuit
  breaking, retries, caching, supervised concurrency, a task queue, gRPC and HTTP servers, databases,
  configuration, validation, telemetry and logging. The packages call one another hardly at all; what
  they share is Go's vocabulary of errors, panics, contexts and functional options, which is the
  theory \<open>Prelude\<close>. Programs put them together, as those under \<open>simulation\<close> do, and what they promise
  together is a part of this development. Each component has a theory of definitions translated from its source, and, where
  its properties need more than a page, a second theory for them.

  \<^bold>\<open>How Go is read\<close> (\<open>Prelude\<close>)

  \<^item> An \<open>error\<close> is a \<open>gerror option\<close>, \<open>None\<close> for nil. Its constructors are the errors the code produces
    or compares with, with \<open>Wrapped\<close>, \<open>Joined\<close> and \<open>PanicError\<close> for \<open>fmt.Errorf("%w")\<close>, \<open>errors.Join\<close> and
    recovered panics; \<open>errors_is\<close> walks them.
  \<^item> A call that may panic has the type \<open>'a outcome\<close>: \<open>Returns x\<close> or \<open>Panics v\<close>. A \<open>defer\<close> with
    \<open>recover\<close> is a case distinction over it.
  \<^item> A \<open>context.Context\<close> is the time at which it ends, if it does, and the error it then reports.
    Clock readings are arguments, or part of the state where the code reads the clock more than once.
  \<^item> Integers are \<open>int\<close> with Go's ranges written out where a range matters (\<open>Retry\<close>, \<open>Config\<close>).
    Durations are nanoseconds. \<open>float64\<close> is in \<open>Float64\<close>, to the extent \<open>retry\<close> uses it, rounding
    included.
  \<^item> Strings are \<open>string\<close> where only equality and concatenation matter, and lists of bytes where
    their encoding does (\<open>Utf8\<close>, \<open>Guard\<close>, \<open>Config\<close>).
  \<^item> A goroutine is a component of the state of a step relation; a critical section is one step.

  \<^bold>\<open>The components\<close>

  \<^item> \<open>result/result.go\<close>: \<open>Result\<close>. The struct with its three fields and every function of the package.
    The operations implement those of a sum type; \<open>Map\<close> and \<open>FlatMap\<close> obey the monad laws.
  \<^item> \<open>circuitbreaker/circuitbreaker.go\<close>: \<open>Breaker\<close> (the operations, each a function of the breaker and
    the clock; \<open>ExecuteContext\<close> is \<open>begin_execute\<close>, the user's function, \<open>end_execute\<close>; and the same
    critical sections with their locking and unlocking, \<open>begin_locked\<close>, \<open>end_locked\<close>, \<open>State_locked\<close>,
    \<open>Reset_locked\<close>), \<open>BreakerSpec\<close> (well-formedness, the refinement of a countdown machine, and that a
    reset of a closed breaker clears nothing), \<open>BreakerConc\<close> (any number of calls in
    flight, over those locked sections: a call whose context is done returns before it locks), \<open>BreakerStorm\<close> (schedules in which every call fails:
    how many reach the backend before the breaker sheds the rest, and how a call that outlives its phase
    misleads it). Shown: when it trips, recovers, rejects, what a
    call returns on every branch, that an aborting client is neutral, the invariant of the concurrent
    breaker, the bound on probes of the present phase, that no schedule wedges it unless a callback
    panics and that a call is then always admitted again, after some time or after a probe of the present
    phase has ended, and the schedules in which it does not do what its documentation says.
  \<^item> \<open>retry/retry.go\<close>: \<open>Retry\<close> (options, delays, both loops, over an environment that says what the
    attempts, the random source and \<open>select\<close> do) and \<open>RetrySpec\<close>: the loop refines a specification that reads the list of attempt
    results; the exact exponential delay, rounded to the nearest double, and the bounds with jitter; the
    context is honoured; \<open>DoWithValue\<close> is \<open>Do\<close> around a closure that leaves its value in a variable. The loops recurse on the attempts left, so they are total. The
    supervised function is a closure: it has a state, which the loops thread through its calls.
  \<^item> \<open>cachekit\<close>: \<open>CacheSpec\<close> (the \<open>Cache\<close> interface of \<open>cache.go\<close> as the locale \<open>cache_api\<close>, and the
    timed map any implementation of it refines), \<open>Cache\<close> (\<open>memory.go\<close>, the interpretation of the
    locale, and \<open>redis.go\<close> over a parameter for its client), \<open>CacheConc\<close> (the locked sections of the
    operations and the cleanup goroutine interleaved: each step changes the observable map exactly as
    its label says, no answer was stale, and \<open>Close\<close> ends the goroutine), \<open>CacheAnswers\<close> (every value
    a concurrent \<open>Get\<close> answers was visible at some moment of that very call, whatever calls overlap it,
    which need not be so for a miss),
    \<open>CacheHeap\<close> (the
    operations and the sweep over a store of byte arrays: no write of a caller reaches a cached value, and the cache
    behaves as the one on values) and \<open>CacheBackends\<close> (a sequence of operations gets the same answers
    from Redis, while its commands do not fail, and from memory, but for the two milliseconds around a
    deadline that Redis's clock cannot tell apart).
  \<^item> \<open>async/async.go\<close>: \<open>Async\<close> (\<open>Map\<close>, \<open>Fan\<close> and \<open>Group\<close> as step relations over all interleavings, \<open>Go\<close> and
    \<open>GoErr\<close> as the goroutines they start) and \<open>AsyncSpec\<close>: \<open>Map\<close> runs at most \<open>concurrency\<close> calls at a
    time, returns in every maximal run, returns all results or the first specific error, else the
    context's, else the first; \<open>Group\<close> and \<open>Fan\<close> lose no error and no panic.
  \<^item> \<open>async/queue.go\<close>: \<open>Queue\<close> (the server's and the client's functions over parameters for asynq, and
    the server as a step relation of goroutines that register, start and stop) and \<open>QueueSpec\<close>: once
    started the server's mux never changes, and no handler's panic takes the server down.
  \<^item> \<open>grpckit\<close>: \<open>Grpc\<close> (the four interceptors, both configurations and constructors) and \<open>GrpcSpec\<close>: what
    a call through the built-in chain returns and logs, unary and streaming, as two interpretations of
    the locale \<open>interceptor_stack\<close>; the chains and credentials of a new server and a new client.
  \<^item> \<open>httpkit\<close>: \<open>Http\<close> (middlewares, responses, router and server over a model of \<open>net/http\<close>'s response
    writer) and \<open>HttpSpec\<close>: the verdict on a request through the router's middlewares, the CORS policy,
    complete JSON responses, positive server timeouts, and the metrics path that is throttled.
    \<open>Shutdown\<close> is \<open>GracefulShutdown\<close> as the step relation of its two goroutines and their channels: the
    server's goroutine is never blocked for ever, and what the function returns is determined by the error
    the server exited with or by \<open>Shutdown\<close>; ghost fields record both.
    \<open>Jsonutil\<close> holds the JSON functions \<open>httpkit\<close> and its users call.
  \<^item> \<open>dbkit\<close>: \<open>Db\<close>. Connecting with the pool's limits as \<open>database/sql\<close> clamps them, the health check, and
    the migrations, whose engine is always closed and whose errors take precedence in a fixed order.
  \<^item> \<open>config/config.go\<close>: \<open>GoParse\<close> (the parsers of \<open>strconv\<close> and \<open>time\<close> the package relies on, written
    out), \<open>GoParseSpec\<close> (rounding is to a nearest number, printed integers and durations are read
    back), \<open>Config\<close> (\<open>Load\<close>, \<open>populate\<close> and \<open>setField\<close>) and \<open>ConfigSpec\<close>: which leaves are set to what,
    where loading stops, that accepted values are in range, the round trip of numbers, and when
    loading returns at all. \<open>populate\<close> follows pointers to named struct types, so its recursion has fuel,
    spent only when a pointer is followed; some amount is enough whenever the types can be ranked so
    that each points to types of lower rank, more never changes the result, and none is enough for a
    type that points to itself.
  \<^item> \<open>guard/guard.go\<close>: \<open>Guard\<close>, over \<open>Utf8\<close> (decoding as \<open>range\<close> does it, encoding, \<open>TrimSpace\<close>): the exact
    output of the sanitiser on any byte string, and the translation of all failed fields.
  \<^item> The packages put together, as in \<open>simulation/chaos_full_system_test.go\<close>: \<open>Resilience\<close> (a cache in front
    of \<open>result.Of(retry.DoWithValue(...))\<close> around a circuit breaker around a service, the service being a
    parameter) and \<open>ResilienceSpec\<close>: how often a failing service is really called by one retried call and
    by any number of them one after another, where what a call returns comes from, also when its attempts
    are used up, and when the cache answers. A
    loop's properties are proved by the rule \<open>value_loop_rule\<close> of \<open>RetrySpec\<close> with an invariant of its
    attempts.
  \<^item> \<open>otelkit\<close>, \<open>logkit\<close>: \<open>Telemetry\<close>. Initialisation changes no global and leaks no exporter when it fails.

  \<^bold>\<open>Shared contracts\<close>

  The locales of \<open>Prelude\<close> are \<open>option_api\<close> (options that keep a configuration valid give a valid
  configuration; interpreted for retry, the router, the gRPC server and client), \<open>inductive_invariant\<close>
  (the breaker, both concurrent caches, \<open>Map\<close>, \<open>Group\<close>, \<open>Fan\<close>, the queue, the graceful shutdown), \<open>terminating_system\<close> (\<open>Map\<close>) and \<open>simulation\<close> (the breaker
  and its countdown). \<open>recovery\<close> in \<open>Async\<close> is the contract of a panic boundary, which the task queue and
  the gRPC interceptors both keep; \<open>abort_aware\<close> in \<open>HttpSpec\<close> that of a middleware whose client is gone.

  \<^bold>\<open>Parameters\<close>

  Code outside the repository is an argument of the definitions that use it: the validator, the JSON
  encoder, asynq, go-redis, grpc, chi and otelchi, the limiter of \<open>x/time/rate\<close>, sqlx and the migration
  engine, the OpenTelemetry exporters, and, of the standard library, the formatting of values, the
  random source and the conversion of an out-of-range double to int64, which Go leaves to the
  implementation. Where a property needs to know how one of them behaves, that is a hypothesis of it.

  \<^bold>\<open>Not modelled\<close>

  Left out of the modelled packages: the text of stack traces. In \<open>CacheHeap\<close> an operation is one
  step; its locked sections are interleaved in \<open>CacheConc\<close>, on values. Of the tests and
  simulations only the function that one of them maps over its items is modelled; the others drive the
  same operations, and the code around them only sets up and counts.
\<close>

end
